theory Spec2Isabelle
  imports Complex_Main "HOL-Library.Sublist" "HOL-Library.Multiset"
begin

section \<open>The module-graph fuzzer of \<open>src/index.ts\<close>\<close>

text \<open>
  The fuzzer generates a random graph of modules, each with original exports, imports,
  re-exports and side effects, then computes which side effects the first entrypoint must
  fire and archives the shortest reproduction per failure category.

  Strings are lists of characters (code units below 256). Of a module the constant field
  \<open>type\<close> is left out, and of a trial its \<open>id\<close> and its three paths, which no function
  modelled here reads.
\<close>

subsection \<open>Data model\<close>

datatype means = Static | Dynamic

record TrialExport =
  importedFrom :: string
  name :: string

record TaggedTrialExport = TrialExport +
  means :: means

record TrialModule =
  id_m :: string
  originals :: "string list"
  imports_m :: "TaggedTrialExport list"
  sideEffects :: "string list"
  exports_m :: "TrialExport list"

record Trial =
  entrypoints :: "TrialModule list"
  modules :: "TrialModule list"
  internalIdIncrementor :: nat

datatype error = UnwrapError | UnknownErrorCategory string

subsection \<open>Random choice\<close>

text \<open>
  \<open>Math.random()\<close> returns a float \<open>u\<close> with \<open>0 \<le> u < 1\<close>, here a rational of that interval.
  Every call is answered by the next element of a list of such numbers that the functions
  thread through (the type \<open>rng\<close>), and by \<open>0\<close> once the list is exhausted. Every run of
  the program makes finitely many calls, so every behaviour of the program is the behaviour
  of the model on some list.
\<close>

typedef unit_float = "{u :: rat. 0 \<le> u \<and> u < 1}"
  morphisms value_of Abs_unit_float
  by (rule exI[of _ 0]) simp

setup_lifting type_definition_unit_float

text \<open>\<open>float_of k n\<close> is the float \<open>k / n\<close> when \<open>k < n\<close>; lists of draws are written with it.\<close>

lift_definition float_of :: "nat \<Rightarrow> nat \<Rightarrow> unit_float"
  is "\<lambda>k n. if k < n then of_nat k / of_nat n else 0"
  by auto

type_synonym rng = "unit_float list"

definition Math_random :: "rng \<Rightarrow> unit_float \<times> rng" where
  "Math_random r = (case r of [] \<Rightarrow> (float_of 0 1, []) | u # us \<Rightarrow> (u, us))"

text \<open>\<open>random(min, max)\<close> is \<open>Math.floor(Math.random() * (max - min + 1)) + min\<close>.\<close>

definition random :: "int \<Rightarrow> int \<Rightarrow> rng \<Rightarrow> int \<times> rng" where
  "random lo hi r =
     (let (u, r') = Math_random r
      in (\<lfloor>value_of u * of_int (hi - lo + 1)\<rfloor> + lo, r'))"

text \<open>
  \<open>unwrap\<close> (from the library \<open>@vortexjs/common\<close>) throws on \<open>undefined\<close>; indexing an
  array out of range gives \<open>undefined\<close>.
\<close>

definition unwrap :: "'a option \<Rightarrow> error + 'a" where
  "unwrap v = (case v of None \<Rightarrow> Inl UnwrapError | Some x \<Rightarrow> Inr x)"

definition at_index :: "'a list \<Rightarrow> int \<Rightarrow> 'a option" where
  "at_index items i = (if 0 \<le> i \<and> i < int (length items) then Some (items ! nat i) else None)"

definition pick :: "'a list \<Rightarrow> rng \<Rightarrow> error + ('a \<times> rng)" where
  "pick items r =
     (let (i, r') = random 0 (int (length items) - 1) r
      in case unwrap (at_index items i) of Inl e \<Rightarrow> Inl e | Inr x \<Rightarrow> Inr (x, r'))"

subsection \<open>Import resolution\<close>

definition importIntoModule ::
  "TrialExport \<Rightarrow> TrialModule \<Rightarrow> rng \<Rightarrow> error + (string \<times> TrialModule \<times> rng)" where
  "importIntoModule exported targetModule r =
     (case find (\<lambda>existingImport. name existingImport = name exported) (imports_m targetModule) of
        Some existingImport \<Rightarrow> Inr (name existingImport, targetModule, r)
      | None \<Rightarrow>
          if name exported \<in> set (originals targetModule) then Inr (name exported, targetModule, r)
          else (case pick [Static, Dynamic] r of
                  Inl e \<Rightarrow> Inl e
                | Inr (m, r') \<Rightarrow>
                    let taggedExport =
                          \<lparr>importedFrom = importedFrom exported, name = name exported, means = m\<rparr>
                    in Inr (name taggedExport,
                            targetModule\<lparr>imports_m := imports_m targetModule @ [taggedExport]\<rparr>,
                            r')))"

subsection \<open>Identifier allocation\<close>

text \<open>
  \<open>Number.prototype.toString(36)\<close> on a non-negative integer: its digits in base 36, most
  significant first, drawn from \<open>0-9a-z\<close>.
\<close>

definition digits36 :: string where
  "digits36 = ''0123456789abcdefghijklmnopqrstuvwxyz''"

function toString36 :: "nat \<Rightarrow> string" where
  "toString36 n = (if n < 36 then [digits36 ! n] else toString36 (n div 36) @ [digits36 ! (n mod 36)])"
  by pat_completeness auto
termination
  by (relation "measure (\<lambda>n. n)") auto

definition getInternalId :: "Trial \<Rightarrow> string \<times> Trial" where
  "getInternalId t =
     (''e'' @ toString36 (internalIdIncrementor t),
      t\<lparr>internalIdIncrementor := internalIdIncrementor t + 1\<rparr>)"

subsection \<open>Generation passes\<close>

text \<open>
  \<open>for (const _i of repeat(n)) body\<close> runs the body \<open>n\<close> times; \<open>for (const module of
  this.modules) body\<close> runs it once per position of the array, whose length no pass changes.
  A body that mutates \<open>module\<close> writes the new module back at its position.
\<close>

definition newModule :: "Trial \<Rightarrow> Trial" where
  "newModule t =
     (let (i, t1) = getInternalId t
      in t1\<lparr>modules := modules t1 @
           [\<lparr>id_m = i, originals = [], imports_m = [], sideEffects = [], exports_m = []\<rparr>]\<rparr>)"

definition seedInitialModules :: "Trial \<times> rng \<Rightarrow> Trial \<times> rng" where
  "seedInitialModules s =
     (case s of (t, r) \<Rightarrow> let (n, r1) = random 2 5 r in ((newModule ^^ nat n) t, r1))"

definition newOriginal :: "nat \<Rightarrow> Trial \<Rightarrow> Trial" where
  "newOriginal i t =
     (let module_m = modules t ! i;
          (n, t1) = getInternalId t;
          exp = \<lparr>importedFrom = id_m module_m, name = ''export_'' @ n\<rparr>
      in t1\<lparr>modules := (modules t1)
           [i := module_m\<lparr>originals := originals module_m @ [name exp],
                        exports_m := exports_m module_m @ [exp]\<rparr>]\<rparr>)"

definition originalsOfModule :: "nat \<Rightarrow> Trial \<times> rng \<Rightarrow> Trial \<times> rng" where
  "originalsOfModule i s =
     (case s of (t, r) \<Rightarrow> let (n, r1) = random 1 5 r in ((newOriginal i ^^ nat n) t, r1))"

definition addOriginalExports :: "Trial \<times> rng \<Rightarrow> Trial \<times> rng" where
  "addOriginalExports s = fold originalsOfModule [0..<length (modules (fst s))] s"

fun repeat :: "nat \<Rightarrow> ('s \<Rightarrow> error + 's) \<Rightarrow> 's \<Rightarrow> error + 's" where
  "repeat 0 body s = Inr s"
| "repeat (Suc k) body s = (case body s of Inl e \<Rightarrow> Inl e | Inr s' \<Rightarrow> repeat k body s')"

fun forEach :: "'a list \<Rightarrow> ('a \<Rightarrow> 's \<Rightarrow> error + 's) \<Rightarrow> 's \<Rightarrow> error + 's" where
  "forEach [] body s = Inr s"
| "forEach (x # xs) body s = (case body x s of Inl e \<Rightarrow> Inl e | Inr s' \<Rightarrow> forEach xs body s')"

definition pickRandomExport :: "Trial \<Rightarrow> rng \<Rightarrow> error + (TrialExport \<times> rng)" where
  "pickRandomExport t r = (let allExports = concat (map exports_m (modules t)) in pick allExports r)"

definition reExport :: "nat \<Rightarrow> Trial \<times> rng \<Rightarrow> error + Trial \<times> rng" where
  "reExport i s =
     (case s of (t, r) \<Rightarrow>
        case pickRandomExport t r of
          Inl e \<Rightarrow> Inl e
        | Inr (imp, r1) \<Rightarrow>
            let module_m = modules t ! i
            in if name imp \<in> set (originals module_m) then Inr (t, r1)
               else (case importIntoModule imp module_m r1 of
                       Inl e \<Rightarrow> Inl e
                     | Inr (nm, module_m1, r2) \<Rightarrow>
                         Inr (t\<lparr>modules := (modules t)
                                [i := module_m1\<lparr>exports_m := exports_m module_m1 @
                                       [\<lparr>importedFrom = id_m module_m1, name = nm\<rparr>]\<rparr>]\<rparr>,
                              r2)))"

definition reExportsOfModule :: "nat \<Rightarrow> Trial \<times> rng \<Rightarrow> error + Trial \<times> rng" where
  "reExportsOfModule i s =
     (case s of (t, r) \<Rightarrow> let (n, r1) = random 0 5 r in repeat (nat n) (reExport i) (t, r1))"

definition addReExports :: "Trial \<times> rng \<Rightarrow> error + Trial \<times> rng" where
  "addReExports s = forEach [0..<length (modules (fst s))] reExportsOfModule s"

definition sideEffect :: "nat \<Rightarrow> Trial \<times> rng \<Rightarrow> error + Trial \<times> rng" where
  "sideEffect i s =
     (case s of (t, r) \<Rightarrow>
        case pickRandomExport t r of
          Inl e \<Rightarrow> Inl e
        | Inr (imp, r1) \<Rightarrow>
            let module_m = modules t ! i
            in if name imp \<in> set (originals module_m) then Inr (t, r1)
               else (case importIntoModule imp module_m r1 of
                       Inl e \<Rightarrow> Inl e
                     | Inr (nm, module_m1, r2) \<Rightarrow>
                         Inr (t\<lparr>modules := (modules t)
                                [i := module_m1\<lparr>sideEffects := sideEffects module_m1 @ [nm]\<rparr>]\<rparr>,
                              r2)))"

definition sideEffectsOfModule :: "nat \<Rightarrow> Trial \<times> rng \<Rightarrow> error + Trial \<times> rng" where
  "sideEffectsOfModule i s =
     (case s of (t, r) \<Rightarrow> let (n, r1) = random 0 5 r in repeat (nat n) (sideEffect i) (t, r1))"

definition addSideEffects :: "Trial \<times> rng \<Rightarrow> error + Trial \<times> rng" where
  "addSideEffects s = forEach [0..<length (modules (fst s))] sideEffectsOfModule s"

definition newTrial :: Trial where
  "newTrial = \<lparr>entrypoints = [], modules = [], internalIdIncrementor = 0\<rparr>"

subsection \<open>Entrypoint selection\<close>

text \<open>
  \<open>this.modules.sort(() => Math.random() - 0.5)\<close> sorts the array in place with a
  comparator that ignores its two arguments. \<open>Array.prototype.sort\<close> is a builtin of the
  engine that runs the program, not code of the program, and the language standard leaves
  its result open when the comparator is inconsistent, as this one is. The sort is
  therefore a parameter of the model: any function from the comparator, the array and the
  draws to the array it leaves and the draws that remain.
\<close>

type_synonym 'a comparefn = "'a \<Rightarrow> 'a \<Rightarrow> rng \<Rightarrow> rat \<times> rng"

type_synonym 'a engine_sort = "'a comparefn \<Rightarrow> 'a list \<Rightarrow> rng \<Rightarrow> 'a list \<times> rng"

definition shuffleCompare :: "'a comparefn" where
  "shuffleCompare a b r = (let (u, r') = Math_random r in (value_of u - 1 / 2, r'))"

definition chooseEntrypoints :: "TrialModule engine_sort \<Rightarrow> Trial \<times> rng \<Rightarrow> Trial \<times> rng" where
  "chooseEntrypoints sort_e s =
     (case s of (t, r) \<Rightarrow>
        let (shuffledModules, r1) = sort_e shuffleCompare (modules t) r;
            (numEntrypoints, r2) = random 1 (min 3 (int (length shuffledModules))) r1
        in (t\<lparr>modules := shuffledModules,
              entrypoints := take (nat numEntrypoints) shuffledModules\<rparr>, r2))"

text \<open>
  What every engine in use does, and what the standard requires of it only for a
  consistent comparator: the array it leaves is a rearrangement of the array it was given.
\<close>

definition permutes :: "'a engine_sort \<Rightarrow> bool" where
  "permutes sort_e \<longleftrightarrow> (\<forall>comparefn xs r. mset (fst (sort_e comparefn xs r)) = mset xs)"

text \<open>Phase 1 of \<open>run\<close>: the four generation passes, then the entrypoints.\<close>

definition generate :: "rng \<Rightarrow> error + Trial \<times> rng" where
  "generate r =
     (case addReExports (addOriginalExports (seedInitialModules (newTrial, r))) of
        Inl e \<Rightarrow> Inl e
      | Inr s \<Rightarrow> addSideEffects s)"

definition plan :: "TrialModule engine_sort \<Rightarrow> rng \<Rightarrow> error + Trial \<times> rng" where
  "plan sort_e r =
     (case generate r of Inl e \<Rightarrow> Inl e | Inr s \<Rightarrow> Inr (chooseEntrypoints sort_e s))"

subsection \<open>Expected side effects\<close>

text \<open>
  \<open>analyzeSideEffects\<close> calls itself inside two loops and shares the array \<open>traced\<close> and the
  set \<open>effects\<close> with every call: the model passes the pair along and returns it updated.
  The first argument bounds the depth of the recursion; \<open>None\<close> is a call that ran out of
  depth.
\<close>

fun forOf :: "'a list \<Rightarrow> ('a \<Rightarrow> 's \<Rightarrow> 's option) \<Rightarrow> 's \<Rightarrow> 's option" where
  "forOf [] body s = Some s"
| "forOf (x # xs) body s = (case body x s of None \<Rightarrow> None | Some s' \<Rightarrow> forOf xs body s')"

fun analyzeSideEffects ::
  "nat \<Rightarrow> TrialModule list \<Rightarrow> string \<Rightarrow> string list \<times> string set \<Rightarrow> (string list \<times> string set) option"
where
  "analyzeSideEffects 0 ms i st = None"
| "analyzeSideEffects (Suc depth) ms i (traced, effects) =
     (case find (\<lambda>m. id_m m = i) ms of
        None \<Rightarrow> Some (traced, effects)
      | Some module_m \<Rightarrow>
          if id_m module_m \<in> set traced then Some (traced, effects)
          else (case forOf (sideEffects module_m)
                       (\<lambda>sideEffect (tr, ef).
                           analyzeSideEffects depth ms sideEffect (tr, insert sideEffect ef))
                       (traced @ [id_m module_m], effects) of
                  None \<Rightarrow> None
                | Some st1 \<Rightarrow>
                    forOf (imports_m module_m)
                      (\<lambda>imp st. analyzeSideEffects depth ms (importedFrom imp) st) st1))"

text \<open>The call of \<open>run\<close>: \<open>traced\<close> and \<open>effects\<close> start empty.\<close>

definition expectedSideEffects :: "Trial \<Rightarrow> string \<Rightarrow> string set option" where
  "expectedSideEffects t i =
     map_option snd (analyzeSideEffects (Suc (length (modules t))) (modules t) i ([], {}))"

text \<open>
  The same traversal without the recursive call on the side-effect name, for comparison
  with \<open>analyzeSideEffects\<close>.
\<close>

fun analyzeImportsOnly ::
  "nat \<Rightarrow> TrialModule list \<Rightarrow> string \<Rightarrow> string list \<times> string set \<Rightarrow> (string list \<times> string set) option"
where
  "analyzeImportsOnly 0 ms i st = None"
| "analyzeImportsOnly (Suc depth) ms i (traced, effects) =
     (case find (\<lambda>m. id_m m = i) ms of
        None \<Rightarrow> Some (traced, effects)
      | Some module_m \<Rightarrow>
          if id_m module_m \<in> set traced then Some (traced, effects)
          else (case forOf (sideEffects module_m)
                       (\<lambda>sideEffect (tr, ef). Some (tr, insert sideEffect ef))
                       (traced @ [id_m module_m], effects) of
                  None \<Rightarrow> None
                | Some st1 \<Rightarrow>
                    forOf (imports_m module_m)
                      (\<lambda>imp st. analyzeImportsOnly depth ms (importedFrom imp) st) st1))"

subsection \<open>Failure classification and the reproduction archive\<close>

definition toLowerChar :: "char \<Rightarrow> char" where
  "toLowerChar c =
     (let n = (of_char c :: nat)
      in if (65 \<le> n \<and> n \<le> 90) \<or> (192 \<le> n \<and> n \<le> 222 \<and> n \<noteq> 215) then char_of (n + 32) else c)"

definition toLowerCase :: "string \<Rightarrow> string" where
  "toLowerCase s = map toLowerChar s"

fun startsWith :: "string \<Rightarrow> string \<Rightarrow> bool" where
  "startsWith s [] = True"
| "startsWith [] (c # cs) = False"
| "startsWith (d # ds) (c # cs) = (d = c \<and> startsWith ds cs)"

fun includes_s :: "string \<Rightarrow> string \<Rightarrow> bool" where
  "includes_s [] sub = startsWith [] sub"
| "includes_s (d # ds) sub = (startsWith (d # ds) sub \<or> includes_s ds sub)"

definition categories :: "string list" where
  "categories = [''duplicate'', ''cannot find module'', ''is not a function'', ''expected side effect'']"

fun firstCategory :: "string \<Rightarrow> string list \<Rightarrow> error + string" where
  "firstCategory realErr [] = Inl (UnknownErrorCategory realErr)"
| "firstCategory realErr (category # rest) =
     (if includes_s (toLowerCase realErr) category then Inr category
      else firstCategory realErr rest)"

definition categorizeError :: "string \<Rightarrow> error + string" where
  "categorizeError realErr = firstCategory realErr categories"

text \<open>
  The archive is the directory \<open>./repros\<close>: at most one document per category. Reading
  the document of a category that has none throws, and \<open>run\<close> catches that. The catch block
  of \<open>run\<close> returns the error it throws, if any, and the archive it leaves.
\<close>

type_synonym archive = "string \<rightharpoonup> string"

datatype read_error = NoSuchFile

definition readRepro :: "archive \<Rightarrow> string \<Rightarrow> read_error + string" where
  "readRepro fs category = (case fs category of None \<Rightarrow> Inl NoSuchFile | Some d \<Rightarrow> Inr d)"

definition retain :: "string \<Rightarrow> string \<Rightarrow> archive \<Rightarrow> archive" where
  "retain category repro fs =
     (case readRepro fs category of
        Inr currentRepro \<Rightarrow>
          if length currentRepro < length repro then fs else fs(category \<mapsto> repro)
      | Inl _ \<Rightarrow> fs(category \<mapsto> repro))"

definition recordFailure :: "string \<Rightarrow> string \<Rightarrow> archive \<Rightarrow> error option \<times> archive" where
  "recordFailure err repro fs =
     (case categorizeError err of
        Inl e \<Rightarrow> (Some e, fs)
      | Inr category \<Rightarrow> (None, retain category repro fs))"

subsection \<open>Naming schemes and well-formed trials\<close>

definition isModuleId :: "string \<Rightarrow> bool" where
  "isModuleId s \<longleftrightarrow> (\<exists>k. s = ''e'' @ toString36 k)"

definition isExportName :: "string \<Rightarrow> bool" where
  "isExportName s \<longleftrightarrow> (\<exists>k. s = ''export_e'' @ toString36 k)"

text \<open>What the seed pass and the original-exports pass establish.\<close>

definition planted :: "Trial \<Rightarrow> bool" where
  "planted t \<longleftrightarrow>
     map id_m (modules t) = map (\<lambda>k. ''e'' @ toString36 k) [0..<length (modules t)]
   \<and> (\<forall>m \<in> set (modules t). imports_m m = [] \<and> sideEffects m = []
          \<and> map name (exports_m m) = originals m
          \<and> (\<forall>n \<in> set (originals m). \<exists>k < internalIdIncrementor t. n = ''export_e'' @ toString36 k))
   \<and> distinct (concat (map originals (modules t)))"

text \<open>
  During the original-exports pass: the trial is planted, has \<open>n\<close> modules, and the modules
  at the positions in \<open>J\<close> have an original export already.
\<close>

definition stage :: "nat \<Rightarrow> nat set \<Rightarrow> Trial \<Rightarrow> bool" where
  "stage n J t \<longleftrightarrow>
     planted t \<and> length (modules t) = n \<and> (\<forall>j \<in> J. originals (modules t ! j) \<noteq> [])"

text \<open>What the re-export pass and the side-effect pass maintain for each module.\<close>

definition moduleOK :: "TrialModule \<Rightarrow> bool" where
  "moduleOK m \<longleftrightarrow>
     isModuleId (id_m m)
   \<and> (\<forall>n \<in> set (originals m). isExportName n)
   \<and> (\<forall>x \<in> set (exports_m m). isExportName (name x))
   \<and> (\<forall>n \<in> set (sideEffects m). isExportName n)
   \<and> (\<forall>b \<in> set (imports_m m). isExportName (name b) \<and> name b \<notin> set (originals m))
   \<and> distinct (map name (imports_m m))
   \<and> exports_m m \<noteq> []"

definition wellFormed :: "Trial \<Rightarrow> bool" where
  "wellFormed t \<longleftrightarrow>
     distinct (map id_m (modules t))
   \<and> (\<forall>m \<in> set (modules t). moduleOK m)
   \<and> distinct (concat (map originals (modules t)))
   \<and> (\<forall>m \<in> set (modules t). \<forall>x \<in> set (exports_m m).
          name x \<in> set (concat (map originals (modules t))))"

text \<open>No module loses or changes an import binding between two trial states.\<close>

definition importsKept :: "Trial \<Rightarrow> Trial \<Rightarrow> bool" where
  "importsKept t t' \<longleftrightarrow>
     length (modules t') = length (modules t)
   \<and> (\<forall>i < length (modules t). prefix (imports_m (modules t ! i)) (imports_m (modules t' ! i)))"

text \<open>
  On a list of modules the recursive call of \<open>analyzeSideEffects\<close> on a side-effect name
  does nothing: ids are module ids, side-effect names are export names and name no
  module, the call on such a name returns the state it was given, and the traversal
  without the call gives the same result from every start.
\<close>

definition recursionIsNoop :: "TrialModule list \<Rightarrow> bool" where
  "recursionIsNoop ms \<longleftrightarrow>
     (\<forall>m \<in> set ms. isModuleId (id_m m)
        \<and> (\<forall>n \<in> set (sideEffects m). isExportName n
              \<and> find (\<lambda>m'. id_m m' = n) ms = None
              \<and> (\<forall>depth st. analyzeSideEffects (Suc depth) ms n st = Some st)))
   \<and> (\<forall>i. \<exists>res. analyzeSideEffects (Suc (length ms)) ms i ([], {}) = Some res
              \<and> analyzeImportsOnly (Suc (length ms)) ms i ([], {}) = Some res)"

subsection \<open>A sample trial\<close>

text \<open>
  The draws below give two modules with one original export each; each module re-exports
  the other's export and calls it as a side effect, so the two import each other. The
  sort of the examples is \<open>sampleSort\<close>, an insertion sort that calls the comparator on a
  later and an earlier element and moves the later one forward on a negative result; with
  it the shuffle swaps the two modules and both become entrypoints.
\<close>

fun sampleInsert :: "'a comparefn \<Rightarrow> 'a \<Rightarrow> 'a list \<Rightarrow> rng \<Rightarrow> 'a list \<times> rng" where
  "sampleInsert comparefn x [] r = ([x], r)"
| "sampleInsert comparefn x (y # ys) r =
     (let (c, r1) = comparefn y x r
      in if c < 0 then (let (zs, r2) = sampleInsert comparefn x ys r1 in (y # zs, r2))
         else (x # y # ys, r1))"

fun sampleSort :: "'a engine_sort" where
  "sampleSort comparefn [] r = ([], r)"
| "sampleSort comparefn (x # xs) r =
     (let (ys, r1) = sampleSort comparefn xs r in sampleInsert comparefn x ys r1)"

definition sampleDraws :: rng where
  "sampleDraws =
     [float_of 0 1, float_of 0 1, float_of 0 1,
      float_of 1 5, float_of 1 2, float_of 0 1, float_of 1 5, float_of 0 1, float_of 1 2,
      float_of 1 5, float_of 1 4, float_of 1 5, float_of 0 1,
      float_of 1 4, float_of 1 2]"

definition sampleModule0 :: TrialModule where
  "sampleModule0 =
     \<lparr>id_m = ''e0'', originals = [''export_e2''],
      imports_m = [\<lparr>importedFrom = ''e1'', name = ''export_e3'', means = Static\<rparr>],
      sideEffects = [''export_e3''],
      exports_m = [\<lparr>importedFrom = ''e0'', name = ''export_e2''\<rparr>,
                   \<lparr>importedFrom = ''e0'', name = ''export_e3''\<rparr>]\<rparr>"

definition sampleModule1 :: TrialModule where
  "sampleModule1 =
     \<lparr>id_m = ''e1'', originals = [''export_e3''],
      imports_m = [\<lparr>importedFrom = ''e0'', name = ''export_e2'', means = Dynamic\<rparr>],
      sideEffects = [''export_e2''],
      exports_m = [\<lparr>importedFrom = ''e1'', name = ''export_e3''\<rparr>,
                   \<lparr>importedFrom = ''e1'', name = ''export_e2''\<rparr>]\<rparr>"

definition sampleTrial :: Trial where
  "sampleTrial =
     \<lparr>entrypoints = [sampleModule1, sampleModule0], modules = [sampleModule1, sampleModule0],
      internalIdIncrementor = 4\<rparr>"

section \<open>Properties\<close>

subsection \<open>Identifiers\<close>

declare toString36.simps [simp del]

lemma distinct_digits36: "distinct digits36"
  by (simp add: digits36_def)

lemma length_digits36: "length digits36 = 36"
  by (simp add: digits36_def)

lemma digits36_inj: "a < 36 \<Longrightarrow> b < 36 \<Longrightarrow> digits36 ! a = digits36 ! b \<Longrightarrow> a = b"
  using distinct_digits36 by (simp add: nth_eq_iff_index_eq length_digits36)

lemma underscore_not_digit: "CHR ''_'' \<notin> set digits36"
  by (simp add: digits36_def)

lemma toString36_digits: "set (toString36 n) \<subseteq> set digits36"
proof (induction n rule: toString36.induct)
  case (1 n)
  have "n mod 36 < length digits36" by (simp add: length_digits36)
  then have m: "digits36 ! (n mod 36) \<in> set digits36" by (rule nth_mem)
  show ?case
  proof (cases "n < 36")
    case True
    then have "digits36 ! n \<in> set digits36" by (intro nth_mem) (simp add: length_digits36)
    with True show ?thesis by (subst toString36.simps) simp
  next
    case False
    with 1 m show ?thesis by (subst toString36.simps) simp
  qed
qed

lemma toString36_snoc:
  "36 \<le> n \<Longrightarrow> toString36 n = toString36 (n div 36) @ [digits36 ! (n mod 36)]"
  by (subst toString36.simps) simp

lemma toString36_small: "n < 36 \<Longrightarrow> toString36 n = [digits36 ! n]"
  by (subst toString36.simps) simp

lemma toString36_not_Nil: "toString36 n \<noteq> []"
  by (subst toString36.simps) simp

lemma toString36_inj: "toString36 a = toString36 b \<Longrightarrow> a = b"
proof (induction a arbitrary: b rule: toString36.induct)
  case (1 a)
  show ?case
  proof (cases "a < 36")
    case a: True
    show ?thesis
    proof (cases "b < 36")
      case True
      with a 1(2) show ?thesis by (simp add: toString36_small digits36_inj)
    next
      case False
      with a 1(2) show ?thesis
        using toString36_not_Nil[of "b div 36"] by (simp add: toString36_small toString36_snoc)
    qed
  next
    case a: False
    show ?thesis
    proof (cases "b < 36")
      case True
      with a 1(2) show ?thesis
        using toString36_not_Nil[of "a div 36"] by (simp add: toString36_small toString36_snoc)
    next
      case False
      with a 1(2) have e: "toString36 (a div 36) = toString36 (b div 36)"
        and d: "digits36 ! (a mod 36) = digits36 ! (b mod 36)"
        by (simp_all add: toString36_snoc)
      from 1(1)[OF a e] have q: "a div 36 = b div 36" .
      from d have "a mod 36 = b mod 36" by (intro digits36_inj) simp_all
      with q show ?thesis by (metis div_mult_mod_eq)
    qed
  qed
qed

subsection \<open>Random choice\<close>

lemma value_of_bounds: "0 \<le> value_of u" "value_of u < 1"
  using value_of[of u] by simp_all

lemma random_range:
  assumes "lo \<le> hi"
  shows "lo \<le> fst (random lo hi r) \<and> fst (random lo hi r) \<le> hi"
proof -
  obtain u r' where ur: "Math_random r = (u, r')" by (cases "Math_random r")
  define n where "n = hi - lo + 1"
  have n: "0 < n" using assms by (simp add: n_def)
  have "0 \<le> value_of u * of_int n"
    using value_of_bounds(1)[of u] n by simp
  then have lo: "0 \<le> \<lfloor>value_of u * of_int n\<rfloor>" by simp
  have "value_of u * of_int n < of_int n"
    using value_of_bounds(2)[of u] n by simp
  then have "\<lfloor>value_of u * of_int n\<rfloor> < n" by (simp add: floor_less_iff)
  with lo show ?thesis by (simp add: random_def ur n_def)
qed

lemma pick_nonempty:
  assumes "items \<noteq> []"
  shows "\<exists>x r'. pick items r = Inr (x, r') \<and> x \<in> set items"
proof -
  obtain i r' where ir: "random 0 (int (length items) - 1) r = (i, r')"
    by (cases "random 0 (int (length items) - 1) r")
  have "0 \<le> int (length items) - 1" using assms by (cases items) simp_all
  from random_range[OF this, of r] ir have "0 \<le> i" "i < int (length items)" by simp_all
  then show ?thesis
    by (simp add: pick_def ir at_index_def unwrap_def)
qed

subsection \<open>Import resolution\<close>

lemma find_name_Some:
  "find (\<lambda>b. name b = n) bs = Some b \<Longrightarrow> name b = n"
  by (auto simp: find_Some_iff)

lemma find_snoc:
  "find P (xs @ [y]) = (case find P xs of Some x \<Rightarrow> Some x | None \<Rightarrow> if P y then Some y else None)"
  by (induction xs) simp_all

text \<open>The three ways \<open>importIntoModule\<close> returns; it never throws.\<close>

lemma importIntoModule_cases:
  obtains (existing) b where "find (\<lambda>b. name b = name exported) (imports_m targetModule) = Some b"
      "importIntoModule exported targetModule r = Inr (name exported, targetModule, r)"
  | (original) "find (\<lambda>b. name b = name exported) (imports_m targetModule) = None"
      "name exported \<in> set (originals targetModule)"
      "importIntoModule exported targetModule r = Inr (name exported, targetModule, r)"
  | (fresh) m r' where "find (\<lambda>b. name b = name exported) (imports_m targetModule) = None"
      "name exported \<notin> set (originals targetModule)"
      "pick [Static, Dynamic] r = Inr (m, r')"
      "importIntoModule exported targetModule r =
         Inr (name exported,
              targetModule\<lparr>imports_m := imports_m targetModule @
                 [\<lparr>importedFrom = importedFrom exported, name = name exported, means = m\<rparr>]\<rparr>, r')"
proof (cases "find (\<lambda>b. name b = name exported) (imports_m targetModule)")
  case (Some b)
  then have "name b = name exported" by (rule find_name_Some)
  with Some show ?thesis by (intro existing[of b]) (simp_all add: importIntoModule_def)
next
  case None
  show ?thesis
  proof (cases "name exported \<in> set (originals targetModule)")
    case True
    with None show ?thesis by (intro original) (simp_all add: importIntoModule_def)
  next
    case False
    obtain m r' where p: "pick [Static, Dynamic] r = Inr (m, r')"
      using pick_nonempty[of "[Static, Dynamic]" r] by auto
    with None False show ?thesis
      by (intro fresh[of m r']) (simp_all add: importIntoModule_def)
  qed
qed

text \<open>
  Claim C3. \<open>importIntoModule\<close> is idempotent: a call returns the name of the export and a
  target module on which every further call with the same export returns the same name,
  leaves the module (so its imports list) as it is, and draws no random number.
\<close>

theorem importIntoModule_idempotent:
  "\<exists>m1 r1. importIntoModule exported targetModule r = Inr (name exported, m1, r1)
     \<and> (\<forall>r2. importIntoModule exported m1 r2 = Inr (name exported, m1, r2))"
proof (cases exported targetModule r rule: importIntoModule_cases)
  case (existing b)
  then have "\<forall>r2. importIntoModule exported targetModule r2 = Inr (name exported, targetModule, r2)"
    by (auto simp: importIntoModule_def dest: find_name_Some)
  with existing show ?thesis by simp
next
  case original
  then have "\<forall>r2. importIntoModule exported targetModule r2 = Inr (name exported, targetModule, r2)"
    by (simp add: importIntoModule_def)
  with original show ?thesis by simp
next
  case (fresh m r')
  define m1 where "m1 = targetModule\<lparr>imports_m := imports_m targetModule @
                 [\<lparr>importedFrom = importedFrom exported, name = name exported, means = m\<rparr>]\<rparr>"
  have "find (\<lambda>b. name b = name exported) (imports_m m1)
          = Some \<lparr>importedFrom = importedFrom exported, name = name exported, means = m\<rparr>"
    using fresh(1) by (simp add: m1_def find_snoc)
  then have "\<forall>r2. importIntoModule exported m1 r2 = Inr (name exported, m1, r2)"
    by (simp add: importIntoModule_def)
  with fresh(4) show ?thesis by (simp add: m1_def)
qed

subsection \<open>The seed pass\<close>

lemma newModule_eq:
  "newModule t = t\<lparr>internalIdIncrementor := internalIdIncrementor t + 1,
       modules := modules t @
         [\<lparr>id_m = ''e'' @ toString36 (internalIdIncrementor t), originals = [], imports_m = [],
           sideEffects = [], exports_m = []\<rparr>]\<rparr>"
  by (simp add: newModule_def getInternalId_def)

lemma seed_loop:
  "(newModule ^^ n) newTrial =
     \<lparr>entrypoints = [],
      modules = map (\<lambda>k. \<lparr>id_m = ''e'' @ toString36 k, originals = [], imports_m = [],
                           sideEffects = [], exports_m = []\<rparr>) [0..<n],
      internalIdIncrementor = n\<rparr>"
  by (induction n) (simp_all add: newModule_eq newTrial_def)

lemma concat_map_Nil: "concat (map (\<lambda>x. []) xs) = []"
  by (induction xs) simp_all

lemma seed_planted: "planted ((newModule ^^ n) newTrial)"
  by (simp add: seed_loop planted_def comp_def concat_map_Nil)

lemma seed_length: "length (modules ((newModule ^^ n) newTrial)) = n"
  by (simp add: seed_loop)

lemma seedInitialModules_planted:
  obtains t r' where "seedInitialModules (newTrial, r) = (t, r')" "planted t"
    "2 \<le> length (modules t)" "length (modules t) \<le> 5"
proof -
  obtain n r' where nr: "random 2 5 r = (n, r')" by (cases "random 2 5 r")
  have "2 \<le> n" "n \<le> 5" using random_range[of 2 5 r] nr by simp_all
  then have "2 \<le> nat n" "nat n \<le> 5" by simp_all
  then show ?thesis
    using that[of "(newModule ^^ nat n) newTrial" r'] nr
    by (simp add: seedInitialModules_def seed_planted seed_length)
qed

subsection \<open>The original-exports pass\<close>

lemma map_update_same: "i < length xs \<Longrightarrow> f y = f (xs ! i) \<Longrightarrow> map f (xs[i := y]) = map f xs"
  by (simp add: map_update list_update_same_conv)

lemma set_concat_snoc_update:
  "i < length xss \<Longrightarrow> set (concat (xss[i := xss ! i @ [v]])) = insert v (set (concat xss))"
proof (induction xss arbitrary: i)
  case Nil
  then show ?case by simp
next
  case (Cons xs xss)
  then show ?case by (cases i) auto
qed

lemma distinct_concat_snoc_update:
  "i < length xss \<Longrightarrow> distinct (concat xss) \<Longrightarrow> v \<notin> set (concat xss)
     \<Longrightarrow> distinct (concat (xss[i := xss ! i @ [v]]))"
proof (induction xss arbitrary: i)
  case Nil
  then show ?case by simp
next
  case (Cons xs xss)
  show ?case
  proof (cases i)
    case 0
    with Cons.prems show ?thesis by auto
  next
    case (Suc j)
    with Cons.prems have j: "j < length xss" by simp
    have "distinct (concat (xss[j := xss ! j @ [v]]))"
      using Cons.IH[OF j] Cons.prems by simp
    moreover have "set (concat (xss[j := xss ! j @ [v]])) = insert v (set (concat xss))"
      using j by (rule set_concat_snoc_update)
    ultimately show ?thesis using Cons.prems Suc by auto
  qed
qed

lemma newOriginal_eq:
  "newOriginal i t =
     t\<lparr>internalIdIncrementor := internalIdIncrementor t + 1,
       modules := (modules t)
         [i := (modules t ! i)
            \<lparr>originals := originals (modules t ! i) @ [''export_e'' @ toString36 (internalIdIncrementor t)],
             exports_m := exports_m (modules t ! i) @
               [\<lparr>importedFrom = id_m (modules t ! i),
                 name = ''export_e'' @ toString36 (internalIdIncrementor t)\<rparr>]\<rparr>]\<rparr>"
  by (simp add: newOriginal_def getInternalId_def Let_def)

lemma newOriginal_planted:
  assumes i: "i < length (modules t)" and p: "planted t"
  shows "planted (newOriginal i t)"
proof -
  define c where "c = internalIdIncrementor t"
  define nm where "nm = ''export_e'' @ toString36 c"
  define m where "m = modules t ! i"
  define m' where "m' = m\<lparr>originals := originals m @ [nm],
      exports_m := exports_m m @ [\<lparr>importedFrom = id_m m, name = nm\<rparr>]\<rparr>"
  have t': "newOriginal i t = t\<lparr>internalIdIncrementor := c + 1, modules := (modules t)[i := m']\<rparr>"
    by (simp add: newOriginal_eq c_def nm_def m_def m'_def)
  have m_in: "m \<in> set (modules t)" using i by (simp add: m_def)
  have old: "\<forall>m \<in> set (modules t). \<forall>n \<in> set (originals m). \<exists>k < c. n = ''export_e'' @ toString36 k"
    using p by (simp add: planted_def c_def)
  have fresh: "nm \<notin> set (concat (map originals (modules t)))"
  proof
    assume "nm \<in> set (concat (map originals (modules t)))"
    then obtain m0 where "m0 \<in> set (modules t)" "nm \<in> set (originals m0)" by auto
    with old obtain k where "k < c" "nm = ''export_e'' @ toString36 k" by blast
    then show False by (auto simp: nm_def dest: toString36_inj)
  qed
  have ids: "map id_m ((modules t)[i := m']) = map id_m (modules t)"
    using i by (intro map_update_same) (simp_all add: m'_def m_def)
  have origs: "map originals ((modules t)[i := m']) =
      (map originals (modules t))[i := map originals (modules t) ! i @ [nm]]"
    using i by (simp add: map_update m'_def m_def)
  have d: "distinct (concat (map originals ((modules t)[i := m'])))"
    unfolding origs using i p fresh
    by (intro distinct_concat_snoc_update) (simp_all add: planted_def)
  have m'_ok: "imports_m m' = [] \<and> sideEffects m' = [] \<and> map name (exports_m m') = originals m'
      \<and> (\<forall>n \<in> set (originals m'). \<exists>k < c + 1. n = ''export_e'' @ toString36 k)"
  proof -
    have "imports_m m = [] \<and> sideEffects m = [] \<and> map name (exports_m m) = originals m"
      using p m_in by (simp add: planted_def)
    moreover have "\<forall>n \<in> set (originals m). \<exists>k < c + 1. n = ''export_e'' @ toString36 k"
      using old m_in by (meson less_SucI Suc_eq_plus1 less_Suc_eq trans_less_add1)
    moreover have "\<exists>k < c + 1. nm = ''export_e'' @ toString36 k"
      by (intro exI[of _ c]) (simp add: nm_def)
    ultimately show ?thesis by (auto simp: m'_def)
  qed
  have others: "\<forall>m0 \<in> set (modules t). imports_m m0 = [] \<and> sideEffects m0 = []
      \<and> map name (exports_m m0) = originals m0
      \<and> (\<forall>n \<in> set (originals m0). \<exists>k < c + 1. n = ''export_e'' @ toString36 k)"
  proof
    fix m0 assume m0: "m0 \<in> set (modules t)"
    then have "imports_m m0 = [] \<and> sideEffects m0 = [] \<and> map name (exports_m m0) = originals m0"
      using p by (simp add: planted_def)
    moreover have "\<forall>n \<in> set (originals m0). \<exists>k < c + 1. n = ''export_e'' @ toString36 k"
      using old m0 by (meson trans_less_add1)
    ultimately show "imports_m m0 = [] \<and> sideEffects m0 = []
      \<and> map name (exports_m m0) = originals m0
      \<and> (\<forall>n \<in> set (originals m0). \<exists>k < c + 1. n = ''export_e'' @ toString36 k)" by simp
  qed
  have all: "\<forall>m0 \<in> set ((modules t)[i := m']). imports_m m0 = [] \<and> sideEffects m0 = []
      \<and> map name (exports_m m0) = originals m0
      \<and> (\<forall>n \<in> set (originals m0). \<exists>k < c + 1. n = ''export_e'' @ toString36 k)"
    using m'_ok others set_update_subset_insert[of "modules t" i m'] by blast
  have len: "length ((modules t)[i := m']) = length (modules t)" by simp
  show ?thesis
    unfolding t' planted_def using ids d all p
    by (simp add: planted_def)
qed

lemma newOriginal_length: "length (modules (newOriginal i t)) = length (modules t)"
  by (simp add: newOriginal_eq)

lemma newOriginal_originals:
  "j < length (modules t) \<Longrightarrow> originals (modules t ! j) \<noteq> [] \<or> j = i
     \<Longrightarrow> originals (modules (newOriginal i t) ! j) \<noteq> []"
  by (cases "j = i") (simp_all add: newOriginal_eq)

lemma newOriginal_stage:
  assumes "i < n" "stage n J t"
  shows "stage n (insert i J) (newOriginal i t)"
proof -
  have len: "length (modules t) = n" and p: "planted t"
    and J: "\<forall>j \<in> J. originals (modules t ! j) \<noteq> []"
    using assms(2) by (simp_all add: stage_def)
  have "planted (newOriginal i t)" using assms(1) len p by (intro newOriginal_planted) simp_all
  moreover have "\<forall>j \<in> insert i J. originals (modules (newOriginal i t) ! j) \<noteq> []"
  proof
    fix j assume j: "j \<in> insert i J"
    show "originals (modules (newOriginal i t) ! j) \<noteq> []"
    proof (cases "j < length (modules t)")
      case True
      then show ?thesis using j J by (intro newOriginal_originals) auto
    next
      case False
      then have "j \<noteq> i" using assms(1) len by auto
      with j J False show ?thesis by (simp add: newOriginal_eq)
    qed
  qed
  ultimately show ?thesis by (simp add: stage_def newOriginal_length len)
qed

lemma newOriginal_loop_stage:
  assumes "i < n" "stage n J t" "0 < k"
  shows "stage n (insert i J) ((newOriginal i ^^ k) t)"
  using assms(3)
proof (induction k)
  case 0
  then show ?case by simp
next
  case (Suc k)
  show ?case
  proof (cases "k = 0")
    case True
    then show ?thesis using newOriginal_stage[OF assms(1,2)] by simp
  next
    case False
    then have "stage n (insert i J) ((newOriginal i ^^ k) t)" using Suc.IH by simp
    from newOriginal_stage[OF assms(1) this] show ?thesis by simp
  qed
qed

lemma originalsOfModule_stage:
  assumes "i < n" "stage n J t"
  shows "stage n (insert i J) (fst (originalsOfModule i (t, r)))"
proof -
  obtain k r' where kr: "random 1 5 r = (k, r')" by (cases "random 1 5 r")
  have "1 \<le> k" using random_range[of 1 5 r] kr by simp
  then have "0 < nat k" by simp
  from newOriginal_loop_stage[OF assms this] show ?thesis
    by (simp add: originalsOfModule_def kr)
qed

lemma addOriginalExports_loop:
  assumes "stage n {} t" "m \<le> n"
  shows "stage n {..<m} (fst (fold originalsOfModule [0..<m] (t, r)))"
  using assms(2)
proof (induction m)
  case 0
  then show ?case using assms(1) by simp
next
  case (Suc m)
  obtain t1 r1 where s1: "fold originalsOfModule [0..<m] (t, r) = (t1, r1)"
    by (cases "fold originalsOfModule [0..<m] (t, r)")
  have "stage n {..<m} t1" using Suc s1 by simp
  moreover have "m < n" using Suc.prems by simp
  ultimately have "stage n (insert m {..<m}) (fst (originalsOfModule m (t1, r1)))"
    by (intro originalsOfModule_stage)
  moreover have "insert m {..<m} = {..<Suc m}" by auto
  ultimately show ?case by (simp add: s1)
qed

lemma addOriginalExports_stage:
  assumes "planted t"
  shows "stage (length (modules t)) {..<length (modules t)} (fst (addOriginalExports (t, r)))"
proof -
  have "stage (length (modules t)) {} t" using assms by (simp add: stage_def)
  from addOriginalExports_loop[OF this order_refl] show ?thesis
    by (simp add: addOriginalExports_def)
qed

lemma stage_wellFormed:
  assumes "stage n {..<n} t"
  shows "wellFormed t"
proof -
  have p: "planted t" and len: "length (modules t) = n"
    and ne: "\<forall>j < n. originals (modules t ! j) \<noteq> []"
    using assms by (simp_all add: stage_def)
  have ids: "map id_m (modules t) = map (\<lambda>k. ''e'' @ toString36 k) [0..<n]"
    using p len by (simp add: planted_def)
  have "inj_on (\<lambda>k. ''e'' @ toString36 k) (set [0..<n])"
    by (auto simp: inj_on_def dest: toString36_inj)
  then have d: "distinct (map id_m (modules t))"
    unfolding ids by (simp add: distinct_map)
  have mods: "\<forall>m \<in> set (modules t). moduleOK m"
  proof
    fix m assume m: "m \<in> set (modules t)"
    then obtain j where j: "j < n" "m = modules t ! j"
      using len by (auto simp: in_set_conv_nth)
    have "id_m m \<in> set (map id_m (modules t))" using m by simp
    then have a: "isModuleId (id_m m)" unfolding ids by (auto simp: isModuleId_def)
    have pm: "imports_m m = []" "sideEffects m = []" "map name (exports_m m) = originals m"
      "\<forall>n \<in> set (originals m). \<exists>k < internalIdIncrementor t. n = ''export_e'' @ toString36 k"
      using p m by (simp_all add: planted_def)
    have b: "\<forall>n \<in> set (originals m). isExportName n"
      using pm(4) by (auto simp: isExportName_def)
    have "\<forall>x \<in> set (exports_m m). name x \<in> set (originals m)"
      using pm(3) by (metis image_eqI list.set_map)
    with b have c: "\<forall>x \<in> set (exports_m m). isExportName (name x)" by blast
    have "originals m \<noteq> []" using ne j by simp
    then have e: "exports_m m \<noteq> []" using pm(3) by auto
    show "moduleOK m" using a b c e pm(1,2) by (simp add: moduleOK_def)
  qed
  have res: "\<forall>m \<in> set (modules t). \<forall>x \<in> set (exports_m m).
      name x \<in> set (concat (map originals (modules t)))"
  proof (intro ballI)
    fix m x assume m: "m \<in> set (modules t)" and x: "x \<in> set (exports_m m)"
    have "map name (exports_m m) = originals m" using p m by (simp add: planted_def)
    then have "name x \<in> set (originals m)" using x by (metis image_eqI list.set_map)
    with m show "name x \<in> set (concat (map originals (modules t)))" by auto
  qed
  show ?thesis using d mods p res by (simp add: wellFormed_def planted_def)
qed

subsection \<open>The re-export pass and the side-effect pass\<close>

lemma importIntoModule_moduleOK:
  assumes ok: "moduleOK m" and nm: "isExportName (name imp)"
  obtains m1 r' where "importIntoModule imp m r = Inr (name imp, m1, r')" "moduleOK m1"
    "id_m m1 = id_m m" "originals m1 = originals m" "prefix (imports_m m) (imports_m m1)"
    "exports_m m1 = exports_m m" "sideEffects m1 = sideEffects m"
proof (cases imp m r rule: importIntoModule_cases)
  case (existing b)
  then show ?thesis using ok that[of m r] by simp
next
  case original
  then show ?thesis using ok that[of m r] by simp
next
  case (fresh mn r')
  define m1 where "m1 = m\<lparr>imports_m := imports_m m @
      [\<lparr>importedFrom = importedFrom imp, name = name imp, means = mn\<rparr>]\<rparr>"
  have "\<forall>b \<in> set (imports_m m). name b \<noteq> name imp"
    using fresh(1) by (simp add: find_None_iff)
  then have "name imp \<notin> set (map name (imports_m m))" by auto
  then have "moduleOK m1"
    using ok nm fresh(2) by (auto simp: moduleOK_def m1_def)
  then show ?thesis
    using fresh(4) that[of m1 r'] by (simp add: m1_def)
qed

lemma wellFormed_update:
  assumes "wellFormed t" "i < length (modules t)" "moduleOK m'"
    "id_m m' = id_m (modules t ! i)" "originals m' = originals (modules t ! i)"
    "\<forall>x \<in> set (exports_m m'). name x \<in> set (concat (map originals (modules t)))"
  shows "wellFormed (t\<lparr>modules := (modules t)[i := m']\<rparr>)"
proof -
  have "map id_m ((modules t)[i := m']) = map id_m (modules t)"
    using assms(2,4) by (intro map_update_same)
  moreover have "map originals ((modules t)[i := m']) = map originals (modules t)"
    using assms(2,5) by (intro map_update_same)
  moreover have "\<forall>m \<in> set ((modules t)[i := m']). moduleOK m"
    using assms(1,3) set_update_subset_insert[of "modules t" i m']
    by (auto simp: wellFormed_def)
  moreover have "\<forall>m \<in> set ((modules t)[i := m']). \<forall>x \<in> set (exports_m m).
      name x \<in> set (concat (map originals (modules t)))"
    using assms(1,6) set_update_subset_insert[of "modules t" i m']
    by (auto simp: wellFormed_def)
  ultimately show ?thesis using assms(1) by (simp add: wellFormed_def)
qed

lemma importsKept_refl: "importsKept t t"
  by (simp add: importsKept_def)

lemma importsKept_trans: "importsKept t t1 \<Longrightarrow> importsKept t1 t2 \<Longrightarrow> importsKept t t2"
  unfolding importsKept_def by (metis prefix_order.order_trans)

lemma importsKept_update:
  assumes "prefix (imports_m (modules t ! i)) (imports_m m')"
  shows "importsKept t (t\<lparr>modules := (modules t)[i := m']\<rparr>)"
proof -
  have "prefix (imports_m (modules t ! j)) (imports_m ((modules t)[i := m'] ! j))"
    if "j < length (modules t)" for j
    using that assms by (cases "j = i") simp_all
  then show ?thesis by (simp add: importsKept_def)
qed

lemma pickRandomExport_ok:
  assumes "wellFormed t" "modules t \<noteq> []"
  obtains imp r1 where "pickRandomExport t r = Inr (imp, r1)" "isExportName (name imp)"
    "name imp \<in> set (concat (map originals (modules t)))"
proof -
  obtain m where m: "m \<in> set (modules t)" using assms(2) by (cases "modules t") auto
  then have "exports_m m \<noteq> []" using assms(1) by (simp add: wellFormed_def moduleOK_def)
  with m have "concat (map exports_m (modules t)) \<noteq> []" by auto
  from pick_nonempty[OF this, of r] obtain imp r1
    where p: "pick (concat (map exports_m (modules t))) r = Inr (imp, r1)"
      and i: "imp \<in> set (concat (map exports_m (modules t)))" by auto
  from i obtain m0 where "m0 \<in> set (modules t)" "imp \<in> set (exports_m m0)" by auto
  then have "isExportName (name imp)" "name imp \<in> set (concat (map originals (modules t)))"
    using assms(1) by (simp_all add: wellFormed_def moduleOK_def)
  with p show ?thesis using that by (simp add: pickRandomExport_def)
qed

lemma reExport_step:
  assumes wf: "wellFormed t" and i: "i < length (modules t)"
  shows "\<exists>t' r'. reExport i (t, r) = Inr (t', r') \<and> wellFormed t' \<and> importsKept t t'"
proof -
  have "modules t \<noteq> []" using i by auto
  from pickRandomExport_ok[OF wf this, of r] obtain imp r1
    where p: "pickRandomExport t r = Inr (imp, r1)" and nm: "isExportName (name imp)"
      and orig: "name imp \<in> set (concat (map originals (modules t)))" by blast
  define m where "m = modules t ! i"
  have ok: "moduleOK m" using wf i by (simp add: wellFormed_def m_def)
  show ?thesis
  proof (cases "name imp \<in> set (originals m)")
    case True
    then have "reExport i (t, r) = Inr (t, r1)" by (simp add: reExport_def p m_def)
    then show ?thesis using wf importsKept_refl by blast
  next
    case False
    from importIntoModule_moduleOK[OF ok nm, of r1] obtain m1 r2
      where im: "importIntoModule imp m r1 = Inr (name imp, m1, r2)" and ok1: "moduleOK m1"
        and same: "id_m m1 = id_m m" "originals m1 = originals m"
        and pre: "prefix (imports_m m) (imports_m m1)"
        and ex: "exports_m m1 = exports_m m" by blast
    define m' where "m' = m1\<lparr>exports_m := exports_m m1 @ [\<lparr>importedFrom = id_m m1, name = name imp\<rparr>]\<rparr>"
    have "m \<in> set (modules t)" using i by (simp add: m_def)
    then have "\<forall>x \<in> set (exports_m m). name x \<in> set (concat (map originals (modules t)))"
      using wf by (simp add: wellFormed_def)
    then have known: "\<forall>x \<in> set (exports_m m'). name x \<in> set (concat (map originals (modules t)))"
      using orig ex by (simp add: m'_def)
    have res: "reExport i (t, r) = Inr (t\<lparr>modules := (modules t)[i := m']\<rparr>, r2)"
      using False by (simp add: reExport_def p m_def[symmetric] im m'_def)
    have "moduleOK m'" using ok1 nm by (auto simp: moduleOK_def m'_def)
    then have "wellFormed (t\<lparr>modules := (modules t)[i := m']\<rparr>)"
      using wf i same known by (intro wellFormed_update) (simp_all add: m'_def m_def)
    moreover have "importsKept t (t\<lparr>modules := (modules t)[i := m']\<rparr>)"
      using pre by (intro importsKept_update) (simp add: m'_def m_def)
    ultimately show ?thesis using res by blast
  qed
qed

lemma sideEffect_step:
  assumes wf: "wellFormed t" and i: "i < length (modules t)"
  shows "\<exists>t' r'. sideEffect i (t, r) = Inr (t', r') \<and> wellFormed t' \<and> importsKept t t'"
proof -
  have "modules t \<noteq> []" using i by auto
  from pickRandomExport_ok[OF wf this, of r] obtain imp r1
    where p: "pickRandomExport t r = Inr (imp, r1)" and nm: "isExportName (name imp)"
      and orig: "name imp \<in> set (concat (map originals (modules t)))" by blast
  define m where "m = modules t ! i"
  have ok: "moduleOK m" using wf i by (simp add: wellFormed_def m_def)
  show ?thesis
  proof (cases "name imp \<in> set (originals m)")
    case True
    then have "sideEffect i (t, r) = Inr (t, r1)" by (simp add: sideEffect_def p m_def)
    then show ?thesis using wf importsKept_refl by blast
  next
    case False
    from importIntoModule_moduleOK[OF ok nm, of r1] obtain m1 r2
      where im: "importIntoModule imp m r1 = Inr (name imp, m1, r2)" and ok1: "moduleOK m1"
        and same: "id_m m1 = id_m m" "originals m1 = originals m"
        and pre: "prefix (imports_m m) (imports_m m1)"
        and ex: "exports_m m1 = exports_m m" by blast
    define m' where "m' = m1\<lparr>sideEffects := sideEffects m1 @ [name imp]\<rparr>"
    have "m \<in> set (modules t)" using i by (simp add: m_def)
    then have "\<forall>x \<in> set (exports_m m). name x \<in> set (concat (map originals (modules t)))"
      using wf by (simp add: wellFormed_def)
    then have known: "\<forall>x \<in> set (exports_m m'). name x \<in> set (concat (map originals (modules t)))"
      using ex by (simp add: m'_def)
    have res: "sideEffect i (t, r) = Inr (t\<lparr>modules := (modules t)[i := m']\<rparr>, r2)"
      using False by (simp add: sideEffect_def p m_def[symmetric] im m'_def)
    have "moduleOK m'" using ok1 nm by (auto simp: moduleOK_def m'_def)
    then have "wellFormed (t\<lparr>modules := (modules t)[i := m']\<rparr>)"
      using wf i same known by (intro wellFormed_update) (simp_all add: m'_def m_def)
    moreover have "importsKept t (t\<lparr>modules := (modules t)[i := m']\<rparr>)"
      using pre by (intro importsKept_update) (simp add: m'_def m_def)
    ultimately show ?thesis using res by blast
  qed
qed

lemma repeat_total:
  assumes "P s" "\<And>s. P s \<Longrightarrow> \<exists>s'. body s = Inr s' \<and> P s'"
  shows "\<exists>s'. repeat k body s = Inr s' \<and> P s'"
  using assms(1)
proof (induction k arbitrary: s)
  case 0
  then show ?case by simp
next
  case (Suc k)
  from assms(2)[OF Suc.prems] obtain s1 where "body s = Inr s1" "P s1" by blast
  with Suc.IH[of s1] show ?case by simp
qed

lemma forEach_total:
  assumes "P s" "\<And>x s. x \<in> set xs \<Longrightarrow> P s \<Longrightarrow> \<exists>s'. body x s = Inr s' \<and> P s'"
  shows "\<exists>s'. forEach xs body s = Inr s' \<and> P s'"
  using assms
proof (induction xs arbitrary: s)
  case Nil
  then show ?case by simp
next
  case (Cons x xs)
  from Cons.prems(2)[of x s] Cons.prems(1) obtain s1 where s1: "body x s = Inr s1" "P s1" by auto
  have "\<exists>s'. forEach xs body s1 = Inr s' \<and> P s'"
    using s1(2) Cons.prems(2) by (intro Cons.IH) auto
  with s1 show ?case by simp
qed

lemma reExportsOfModule_total:
  assumes wf: "wellFormed t" and i: "i < length (modules t)"
  shows "\<exists>t' r'. reExportsOfModule i (t, r) = Inr (t', r') \<and> wellFormed t' \<and> importsKept t t'"
proof -
  obtain k r1 where kr: "random 0 5 r = (k, r1)" by (cases "random 0 5 r")
  define P where "P = (\<lambda>s :: Trial \<times> rng. wellFormed (fst s) \<and> importsKept t (fst s))"
  have "P (t, r1)" using wf by (simp add: P_def importsKept_refl)
  moreover have "\<exists>s'. reExport i s = Inr s' \<and> P s'" if "P s" for s
  proof -
    obtain t0 r0 where s: "s = (t0, r0)" by (cases s)
    have "wellFormed t0" "importsKept t t0" using that by (simp_all add: P_def s)
    moreover from this have "i < length (modules t0)" using i by (simp add: importsKept_def)
    ultimately show ?thesis
      using reExport_step[of t0 i r0] importsKept_trans[of t t0] by (auto simp: P_def s)
  qed
  ultimately have "\<exists>s'. repeat (nat k) (reExport i) (t, r1) = Inr s' \<and> P s'"
    by (rule repeat_total)
  then show ?thesis by (auto simp: reExportsOfModule_def kr P_def)
qed

lemma sideEffectsOfModule_total:
  assumes wf: "wellFormed t" and i: "i < length (modules t)"
  shows "\<exists>t' r'. sideEffectsOfModule i (t, r) = Inr (t', r') \<and> wellFormed t' \<and> importsKept t t'"
proof -
  obtain k r1 where kr: "random 0 5 r = (k, r1)" by (cases "random 0 5 r")
  define P where "P = (\<lambda>s :: Trial \<times> rng. wellFormed (fst s) \<and> importsKept t (fst s))"
  have "P (t, r1)" using wf by (simp add: P_def importsKept_refl)
  moreover have "\<exists>s'. sideEffect i s = Inr s' \<and> P s'" if "P s" for s
  proof -
    obtain t0 r0 where s: "s = (t0, r0)" by (cases s)
    have "wellFormed t0" "importsKept t t0" using that by (simp_all add: P_def s)
    moreover from this have "i < length (modules t0)" using i by (simp add: importsKept_def)
    ultimately show ?thesis
      using sideEffect_step[of t0 i r0] importsKept_trans[of t t0] by (auto simp: P_def s)
  qed
  ultimately have "\<exists>s'. repeat (nat k) (sideEffect i) (t, r1) = Inr s' \<and> P s'"
    by (rule repeat_total)
  then show ?thesis by (auto simp: sideEffectsOfModule_def kr P_def)
qed

lemma addReExports_total:
  assumes wf: "wellFormed t"
  shows "\<exists>t' r'. addReExports (t, r) = Inr (t', r') \<and> wellFormed t' \<and> importsKept t t'"
proof -
  define P where "P = (\<lambda>s :: Trial \<times> rng. wellFormed (fst s) \<and> importsKept t (fst s))"
  have "P (t, r)" using wf by (simp add: P_def importsKept_refl)
  moreover have "\<exists>s'. reExportsOfModule i s = Inr s' \<and> P s'"
    if "i \<in> set [0..<length (modules t)]" "P s" for i s
  proof -
    obtain t0 r0 where s: "s = (t0, r0)" by (cases s)
    have "wellFormed t0" "importsKept t t0" using that(2) by (simp_all add: P_def s)
    moreover from this have "i < length (modules t0)" using that(1) by (simp add: importsKept_def)
    ultimately show ?thesis
      using reExportsOfModule_total[of t0 i r0] importsKept_trans[of t t0] by (auto simp: P_def s)
  qed
  ultimately have "\<exists>s'. forEach [0..<length (modules t)] reExportsOfModule (t, r) = Inr s' \<and> P s'"
    by (rule forEach_total)
  then show ?thesis by (auto simp: addReExports_def P_def)
qed

lemma addSideEffects_total:
  assumes wf: "wellFormed t"
  shows "\<exists>t' r'. addSideEffects (t, r) = Inr (t', r') \<and> wellFormed t' \<and> importsKept t t'"
proof -
  define P where "P = (\<lambda>s :: Trial \<times> rng. wellFormed (fst s) \<and> importsKept t (fst s))"
  have "P (t, r)" using wf by (simp add: P_def importsKept_refl)
  moreover have "\<exists>s'. sideEffectsOfModule i s = Inr s' \<and> P s'"
    if "i \<in> set [0..<length (modules t)]" "P s" for i s
  proof -
    obtain t0 r0 where s: "s = (t0, r0)" by (cases s)
    have "wellFormed t0" "importsKept t t0" using that(2) by (simp_all add: P_def s)
    moreover from this have "i < length (modules t0)" using that(1) by (simp add: importsKept_def)
    ultimately show ?thesis
      using sideEffectsOfModule_total[of t0 i r0] importsKept_trans[of t t0] by (auto simp: P_def s)
  qed
  ultimately have "\<exists>s'. forEach [0..<length (modules t)] sideEffectsOfModule (t, r) = Inr s' \<and> P s'"
    by (rule forEach_total)
  then show ?thesis by (auto simp: addSideEffects_def P_def)
qed

text \<open>The two first passes leave a well-formed trial of two to five modules.\<close>

lemma originals_wellFormed:
  obtains t r' where "addOriginalExports (seedInitialModules (newTrial, r)) = (t, r')"
    "wellFormed t" "2 \<le> length (modules t)" "length (modules t) \<le> 5"
proof -
  obtain t0 r0 where s0: "seedInitialModules (newTrial, r) = (t0, r0)" "planted t0"
    "2 \<le> length (modules t0)" "length (modules t0) \<le> 5"
    by (rule seedInitialModules_planted)
  obtain t r' where s1: "addOriginalExports (t0, r0) = (t, r')"
    by (cases "addOriginalExports (t0, r0)")
  have st: "stage (length (modules t0)) {..<length (modules t0)} t"
    using addOriginalExports_stage[OF s0(2), of r0] s1 by simp
  then have "wellFormed t" by (rule stage_wellFormed)
  moreover have "length (modules t) = length (modules t0)" using st by (simp add: stage_def)
  ultimately show ?thesis using that[of t r'] s0 s1 by simp
qed

lemma generate_total:
  obtains t r' where "generate r = Inr (t, r')" "wellFormed t"
    "2 \<le> length (modules t)" "length (modules t) \<le> 5"
proof -
  obtain t1 r1 where s1: "addOriginalExports (seedInitialModules (newTrial, r)) = (t1, r1)"
    "wellFormed t1" "2 \<le> length (modules t1)" "length (modules t1) \<le> 5"
    by (rule originals_wellFormed)
  obtain t2 r2 where s2: "addReExports (t1, r1) = Inr (t2, r2)" "wellFormed t2" "importsKept t1 t2"
    using addReExports_total[OF s1(2), of r1] by blast
  obtain t3 r3 where s3: "addSideEffects (t2, r2) = Inr (t3, r3)" "wellFormed t3" "importsKept t2 t3"
    using addSideEffects_total[OF s2(2), of r2] by blast
  have "length (modules t3) = length (modules t1)"
    using s2(3) s3(3) by (simp add: importsKept_def)
  then show ?thesis
    using that[of t3 r3] s1 s2 s3 by (simp add: generate_def)
qed

subsection \<open>Entrypoint selection\<close>

lemma chooseEntrypoints_eq:
  obtains ms r1 k r2 where "sort_e shuffleCompare (modules t) r = (ms, r1)"
    "random 1 (min 3 (int (length ms))) r1 = (k, r2)"
    "chooseEntrypoints sort_e (t, r) = (t\<lparr>modules := ms, entrypoints := take (nat k) ms\<rparr>, r2)"
proof -
  obtain ms r1 where s: "sort_e shuffleCompare (modules t) r = (ms, r1)"
    by (cases "sort_e shuffleCompare (modules t) r")
  obtain k r2 where k: "random 1 (min 3 (int (length ms))) r1 = (k, r2)"
    by (cases "random 1 (min 3 (int (length ms))) r1")
  show ?thesis using that[OF s k] by (simp add: chooseEntrypoints_def s k)
qed


subsection \<open>Expected side effects\<close>

lemma forOf_total:
  assumes "P s" "\<And>x s. x \<in> set xs \<Longrightarrow> P s \<Longrightarrow> \<exists>s'. body x s = Some s' \<and> P s'"
  shows "\<exists>s'. forOf xs body s = Some s' \<and> P s'"
  using assms
proof (induction xs arbitrary: s)
  case Nil
  then show ?case by simp
next
  case (Cons x xs)
  from Cons.prems(2)[of x s] Cons.prems(1) obtain s1 where s1: "body x s = Some s1" "P s1" by auto
  have "\<exists>s'. forOf xs body s1 = Some s' \<and> P s'"
    using s1(2) Cons.prems(2) by (intro Cons.IH) auto
  with s1 show ?case by simp
qed

lemma forOf_mono:
  assumes "forOf xs body s = Some r"
    "\<And>x s r. x \<in> set xs \<Longrightarrow> body x s = Some r \<Longrightarrow> body' x s = Some r"
  shows "forOf xs body' s = Some r"
  using assms
proof (induction xs arbitrary: s)
  case Nil
  then show ?case by simp
next
  case (Cons x xs)
  from Cons.prems(1) obtain s1 where s1: "body x s = Some s1" "forOf xs body s1 = Some r"
    by (auto split: option.splits)
  have "body' x s = Some s1" using s1(1) Cons.prems(2) by simp
  moreover have "forOf xs body' s1 = Some r" using s1(2) Cons.prems(2) by (intro Cons.IH) auto
  ultimately show ?case by simp
qed

lemma find_id_Some:
  "find (\<lambda>m. id_m m = i) ms = Some m \<Longrightarrow> m \<in> set ms \<and> id_m m = i"
  by (auto simp: find_Some_iff)

lemma analyzeSideEffects_total:
  assumes "card (id_m ` set ms - set traced) < depth" "finite effects"
  shows "\<exists>traced' effects'. analyzeSideEffects depth ms i (traced, effects) = Some (traced', effects')
           \<and> set traced \<subseteq> set traced' \<and> finite effects'"
  using assms
proof (induction depth arbitrary: i traced effects)
  case 0
  then show ?case by simp
next
  case (Suc depth)
  show ?case
  proof (cases "find (\<lambda>m. id_m m = i) ms")
    case None
    then show ?thesis using Suc.prems by simp
  next
    case (Some m)
    show ?thesis
    proof (cases "id_m m \<in> set traced")
      case True
      then show ?thesis using Some Suc.prems by simp
    next
      case False
      define tr1 where "tr1 = traced @ [id_m m]"
      define P where "P = (\<lambda>s :: string list \<times> string set. set tr1 \<subseteq> set (fst s) \<and> finite (snd s))"
      have "m \<in> set ms" using Some by (auto dest: find_id_Some)
      then have "id_m m \<in> id_m ` set ms - set traced" using False by simp
      then have "card (id_m ` set ms - set traced - {id_m m}) < card (id_m ` set ms - set traced)"
        by (intro card_Diff1_less) simp_all
      moreover have "id_m ` set ms - set tr1 = id_m ` set ms - set traced - {id_m m}"
        by (auto simp: tr1_def)
      ultimately have small: "card (id_m ` set ms - set tr1) < depth" using Suc.prems(1) by simp
      have bound: "card (id_m ` set ms - set tr) < depth" if "set tr1 \<subseteq> set tr" for tr
      proof -
        have "id_m ` set ms - set tr \<subseteq> id_m ` set ms - set tr1" using that by auto
        then have "card (id_m ` set ms - set tr) \<le> card (id_m ` set ms - set tr1)"
          by (intro card_mono) simp_all
        with small show ?thesis by simp
      qed
      have step1: "\<exists>s'. (case s of (tr, ef) \<Rightarrow> analyzeSideEffects depth ms x (tr, insert x ef)) = Some s' \<and> P s'"
        if "P s" for x s
      proof -
        obtain tr ef where s: "s = (tr, ef)" by (cases s)
        have "set tr1 \<subseteq> set tr" "finite (insert x ef)" using that by (simp_all add: P_def s)
        with Suc.IH[OF bound, of tr "insert x ef" x] show ?thesis
          by (auto simp: s P_def)
      qed
      have step2: "\<exists>s'. analyzeSideEffects depth ms x s = Some s' \<and> P s'" if "P s" for x s
      proof -
        obtain tr ef where s: "s = (tr, ef)" by (cases s)
        have "set tr1 \<subseteq> set tr" "finite ef" using that by (simp_all add: P_def s)
        with Suc.IH[OF bound, of tr ef x] show ?thesis
          by (auto simp: s P_def)
      qed
      have "P (tr1, effects)" using Suc.prems(2) by (simp add: P_def)
      then obtain st1 where st1: "forOf (sideEffects m)
            (\<lambda>sideEffect (tr, ef). analyzeSideEffects depth ms sideEffect (tr, insert sideEffect ef))
            (tr1, effects) = Some st1" "P st1"
        using forOf_total[of P "(tr1, effects)" "sideEffects m"
            "\<lambda>sideEffect (tr, ef). analyzeSideEffects depth ms sideEffect (tr, insert sideEffect ef)"]
          step1 by blast
      obtain st2 where st2: "forOf (imports_m m)
            (\<lambda>imp st. analyzeSideEffects depth ms (importedFrom imp) st) st1 = Some st2" "P st2"
        using forOf_total[of P st1 "imports_m m"
            "\<lambda>imp st. analyzeSideEffects depth ms (importedFrom imp) st"] st1(2) step2 by blast
      have "analyzeSideEffects (Suc depth) ms i (traced, effects) = Some st2"
        using Some False st1(1) st2(1) by (simp add: tr1_def)
      moreover have "set traced \<subseteq> set (fst st2)" "finite (snd st2)"
        using st2(2) by (auto simp: P_def tr1_def)
      ultimately show ?thesis by (cases st2) auto
    qed
  qed
qed

lemma analyzeSideEffects_deeper:
  assumes "analyzeSideEffects d ms i st = Some r" "d \<le> d'"
  shows "analyzeSideEffects d' ms i st = Some r"
  using assms
proof (induction d arbitrary: d' i st r)
  case 0
  then show ?case by simp
next
  case (Suc d)
  obtain e where d': "d' = Suc e" "d \<le> e" using Suc.prems(2) by (cases d') auto
  obtain traced effects where st: "st = (traced, effects)" by (cases st)
  show ?case
  proof (cases "find (\<lambda>m. id_m m = i) ms")
    case None
    then have "r = (traced, effects)" using Suc.prems(1) by (simp add: st)
    then show ?thesis using None by (simp add: st d')
  next
    case (Some m)
    show ?thesis
    proof (cases "id_m m \<in> set traced")
      case True
      then have "r = (traced, effects)" using Some Suc.prems(1) by (simp add: st)
      then show ?thesis using Some True by (simp add: st d')
    next
      case False
      from Suc.prems(1) Some False obtain st1 where
        a: "forOf (sideEffects m)
              (\<lambda>sideEffect (tr, ef). analyzeSideEffects d ms sideEffect (tr, insert sideEffect ef))
              (traced @ [id_m m], effects) = Some st1"
        and b: "forOf (imports_m m) (\<lambda>imp st. analyzeSideEffects d ms (importedFrom imp) st) st1 = Some r"
        by (auto simp: st split: option.splits)
      have a': "forOf (sideEffects m)
              (\<lambda>sideEffect (tr, ef). analyzeSideEffects e ms sideEffect (tr, insert sideEffect ef))
              (traced @ [id_m m], effects) = Some st1"
        using a by (rule forOf_mono) (auto intro: Suc.IH d'(2))
      have b': "forOf (imports_m m) (\<lambda>imp st. analyzeSideEffects e ms (importedFrom imp) st) st1 = Some r"
        using b by (rule forOf_mono) (auto intro: Suc.IH d'(2))
      show ?thesis using Some False a' b' by (simp add: st d')
    qed
  qed
qed

lemma card_ids_le: "card (id_m ` set ms - set traced) \<le> length ms"
proof -
  have "card (id_m ` set ms - set traced) \<le> card (id_m ` set ms)"
    by (intro card_mono) auto
  also have "\<dots> \<le> card (set ms)" by (intro card_image_le) simp
  also have "\<dots> \<le> length ms" by (rule card_length)
  finally show ?thesis .
qed

lemma ids_names_disjoint:
  assumes "isModuleId s" "isExportName s"
  shows False
proof -
  obtain k where k: "s = ''e'' @ toString36 k"
    using assms(1) unfolding isModuleId_def by blast
  obtain k' where k': "s = ''export_e'' @ toString36 k'"
    using assms(2) unfolding isExportName_def by blast
  from k k' have "toString36 k = ''xport_e'' @ toString36 k'" by simp
  then have "CHR ''_'' \<in> set (toString36 k)" by simp
  then show False using toString36_digits[of k] underscore_not_digit by auto
qed

lemma name_finds_no_module:
  assumes "\<forall>m \<in> set ms. isModuleId (id_m m)" "isExportName s"
  shows "find (\<lambda>m. id_m m = s) ms = None"
  using assms ids_names_disjoint by (auto simp: find_None_iff)

lemma analyzeSideEffects_no_module:
  "find (\<lambda>m. id_m m = s) ms = None \<Longrightarrow> analyzeSideEffects (Suc depth) ms s st = Some st"
  by (cases st) simp

lemma analyzeSideEffects_importsOnly:
  assumes H: "\<forall>m \<in> set ms. \<forall>s \<in> set (sideEffects m). find (\<lambda>m'. id_m m' = s) ms = None"
    and "analyzeSideEffects d ms i st = Some r"
  shows "analyzeImportsOnly d ms i st = Some r"
  using assms(2)
proof (induction d arbitrary: i st r)
  case 0
  then show ?case by simp
next
  case (Suc d)
  obtain traced effects where st: "st = (traced, effects)" by (cases st)
  show ?case
  proof (cases "find (\<lambda>m. id_m m = i) ms")
    case None
    then have "r = (traced, effects)" using Suc.prems by (simp add: st)
    then show ?thesis using None by (simp add: st)
  next
    case (Some m)
    show ?thesis
    proof (cases "id_m m \<in> set traced")
      case True
      then have "r = (traced, effects)" using Some Suc.prems by (simp add: st)
      then show ?thesis using Some True by (simp add: st)
    next
      case False
      have m: "m \<in> set ms" using Some by (auto dest: find_id_Some)
      from Suc.prems Some False obtain st1 where
        a: "forOf (sideEffects m)
              (\<lambda>sideEffect (tr, ef). analyzeSideEffects d ms sideEffect (tr, insert sideEffect ef))
              (traced @ [id_m m], effects) = Some st1"
        and b: "forOf (imports_m m) (\<lambda>imp st. analyzeSideEffects d ms (importedFrom imp) st) st1 = Some r"
        by (auto simp: st split: option.splits)
      have body: "(case s of (tr, ef) \<Rightarrow> Some (tr, insert x ef)) = Some q"
        if "x \<in> set (sideEffects m)"
          "(case s of (tr, ef) \<Rightarrow> analyzeSideEffects d ms x (tr, insert x ef)) = Some q" for x s q
      proof -
        obtain tr ef where s: "s = (tr, ef)" by (cases s)
        have none: "find (\<lambda>m'. id_m m' = x) ms = None" using H m that(1) by blast
        show ?thesis
        proof (cases d)
          case 0
          then show ?thesis using that(2) by (simp add: s)
        next
          case (Suc e)
          then show ?thesis using that(2) none by (simp add: s)
        qed
      qed
      have a': "forOf (sideEffects m) (\<lambda>sideEffect (tr, ef). Some (tr, insert sideEffect ef))
              (traced @ [id_m m], effects) = Some st1"
        using a by (rule forOf_mono) (rule body)
      have b': "forOf (imports_m m) (\<lambda>imp st. analyzeImportsOnly d ms (importedFrom imp) st) st1 = Some r"
        using b by (rule forOf_mono) (rule Suc.IH)
      show ?thesis using Some False a' b' by (simp add: st)
    qed
  qed
qed

subsection \<open>Failure classification and the archive\<close>

lemma startsWith_iff: "startsWith s sub \<longleftrightarrow> (\<exists>q. s = sub @ q)"
  by (induction s sub rule: startsWith.induct) auto

lemma includes_s_iff: "includes_s s sub \<longleftrightarrow> (\<exists>p q. s = p @ sub @ q)"
proof (induction s)
  case Nil
  then show ?case by (cases sub) simp_all
next
  case (Cons d ds)
  show ?case
  proof
    assume "includes_s (d # ds) sub"
    then consider "startsWith (d # ds) sub" | "includes_s ds sub" by auto
    then show "\<exists>p q. d # ds = p @ sub @ q"
    proof cases
      case 1
      then obtain q where "d # ds = [] @ sub @ q" by (auto simp: startsWith_iff)
      then show ?thesis by blast
    next
      case 2
      then obtain p q where "ds = p @ sub @ q" using Cons.IH by auto
      then have "d # ds = (d # p) @ sub @ q" by simp
      then show ?thesis by blast
    qed
  next
    assume "\<exists>p q. d # ds = p @ sub @ q"
    then obtain p q where pq: "d # ds = p @ sub @ q" by auto
    show "includes_s (d # ds) sub"
    proof (cases p)
      case Nil
      with pq have "\<exists>q. d # ds = sub @ q" by auto
      then have "startsWith (d # ds) sub" by (simp only: startsWith_iff)
      then show ?thesis by simp
    next
      case (Cons a p')
      with pq have "ds = p' @ sub @ q" by simp
      then show ?thesis using Cons.IH by auto
    qed
  qed
qed

text \<open>
  Claim C4. \<open>retain\<close> keeps the stored document when there is one strictly shorter than
  the new one, and writes the new one otherwise. So when the category holds no document
  shorter than 80, recording a document of length 100 and one of length 80, in either
  order, leaves the one of length 80.
\<close>

theorem retain_shortest:
  "retain category repro fs =
     (if \<exists>current. fs category = Some current \<and> length current < length repro then fs
      else fs(category \<mapsto> repro))
   \<and> (length d1 = 100 \<and> length d2 = 80 \<and> (\<forall>d. fs category = Some d \<longrightarrow> 80 \<le> length d) \<longrightarrow>
        retain category d2 (retain category d1 fs) category = Some d2
      \<and> retain category d1 (retain category d2 fs) category = Some d2)"
  by (auto simp: retain_def readRepro_def split: option.splits)

theorem retain_shortest_witness:
  "retain ''duplicate'' (replicate 80 CHR ''b'') (retain ''duplicate'' (replicate 100 CHR ''a'') Map.empty)
       ''duplicate'' = Some (replicate 80 CHR ''b'')
   \<and> retain ''duplicate'' (replicate 100 CHR ''a'') (retain ''duplicate'' (replicate 80 CHR ''b'') Map.empty)
       ''duplicate'' = Some (replicate 80 CHR ''b'')"
  using retain_shortest[of "''duplicate''" "[]" Map.empty "replicate 100 CHR ''a''" "replicate 80 CHR ''b''"]
  by simp

lemma upper_codes:
  "map (of_char :: char \<Rightarrow> nat) ''ABCDEFGHIJKLMNOPQRSTUVWXYZ'' = [65..<91]"
  by code_simp

lemma code_upper:
  assumes "65 \<le> (of_char c :: nat)" "(of_char c :: nat) \<le> 90"
  shows "c \<in> set ''ABCDEFGHIJKLMNOPQRSTUVWXYZ''"
proof -
  define upper where "upper = ''ABCDEFGHIJKLMNOPQRSTUVWXYZ''"
  have tbl: "map (of_char :: char \<Rightarrow> nat) upper = [65..<91]"
    unfolding upper_def by (rule upper_codes)
  have "(of_char c :: nat) \<in> {65..<91}" using assms by simp
  then have "(of_char c :: nat) \<in> set [65..<91]" by (simp only: set_upt)
  then have "(of_char c :: nat) \<in> of_char ` set upper"
    by (simp only: tbl[symmetric] set_map)
  then obtain u where u: "u \<in> set upper" and "(of_char c :: nat) = of_char u"
    by (rule imageE)
  then have "c = u" by (simp only: of_char_eq_iff)
  with u show ?thesis by (simp only: upper_def)
qed

lemma lower_table:
  "map toLowerChar ''ABCDEFGHIJKLMNOPQRSTUVWXYZ'' = ''abcdefghijklmnopqrstuvwxyz''"
  by code_simp

lemma toLowerChar_letters:
  "toLowerChar c =
     (case map_of (zip ''ABCDEFGHIJKLMNOPQRSTUVWXYZ'' ''abcdefghijklmnopqrstuvwxyz'') c of
        Some l \<Rightarrow> l
      | None \<Rightarrow>
          if 192 \<le> (of_char c :: nat) \<and> (of_char c :: nat) \<le> 222 \<and> (of_char c :: nat) \<noteq> 215
          then char_of ((of_char c :: nat) + 32) else c)"
proof -
  define upper where "upper = ''ABCDEFGHIJKLMNOPQRSTUVWXYZ''"
  define lower where "lower = ''abcdefghijklmnopqrstuvwxyz''"
  have len: "length upper = length lower" by (simp add: upper_def lower_def)
  have d: "distinct upper" by (simp add: upper_def)
  have tbl: "map toLowerChar upper = lower" unfolding upper_def lower_def by (rule lower_table)
  have "toLowerChar c =
     (case map_of (zip upper lower) c of
        Some l \<Rightarrow> l
      | None \<Rightarrow>
          if 192 \<le> (of_char c :: nat) \<and> (of_char c :: nat) \<le> 222 \<and> (of_char c :: nat) \<noteq> 215
          then char_of ((of_char c :: nat) + 32) else c)"
  proof (cases "c \<in> set upper")
    case True
    then obtain i where i: "i < length upper" "c = upper ! i"
      unfolding in_set_conv_nth by blast
    have "map_of (zip upper lower) (upper ! i) = Some (lower ! i)"
      using len d i(1) by (intro map_of_zip_nth) simp_all
    moreover have "toLowerChar (upper ! i) = map toLowerChar upper ! i"
      using i(1) by (simp only: nth_map)
    then have "toLowerChar (upper ! i) = lower ! i" by (simp only: tbl)
    ultimately show ?thesis unfolding i(2) by simp
  next
    case False
    then have "\<not> (65 \<le> (of_char c :: nat) \<and> (of_char c :: nat) \<le> 90)"
      using code_upper unfolding upper_def by blast
    moreover have "map_of (zip upper lower) c = None"
    proof -
      have "map fst (zip upper lower) = upper" using len by (rule map_fst_zip)
      then have "fst ` set (zip upper lower) = set upper" by (metis set_map)
      then show ?thesis using False by (simp only: map_of_eq_None_iff not_False_eq_True)
    qed
    ultimately show ?thesis by (auto simp: toLowerChar_def Let_def)
  qed
  then show ?thesis unfolding upper_def lower_def .
qed

lemma firstCategory_found:
  assumes "\<exists>c \<in> set cats. includes_s (toLowerCase err) c"
  shows "firstCategory err cats \<in> Inr ` set cats"
  using assms by (induction cats) auto

lemma toLowerCase_expected:
  "toLowerCase ''Expected side effect '' = ''expected side effect ''"
  by code_simp

text \<open>
  Claim C5. \<open>categorizeError\<close> lower-cases the text, which turns each of the letters
  \<open>A-Z\<close> (and each capital of Latin-1) into its small letter and leaves every other
  character, and returns the first of \<open>duplicate\<close>, \<open>cannot find module\<close>,
  \<open>is not a function\<close>, \<open>expected side effect\<close> that occurs in the result as a substring.
  When none occurs it throws, and the catch block of \<open>run\<close> then leaves the archive as it
  was. The message that \<open>run\<close> itself throws for a missing side effect always falls in a
  category.
\<close>

theorem categorizeError_first_match:
  "categorizeError err =
     (let low = toLowerCase err; occurs = (\<lambda>c. \<exists>p q. low = p @ c @ q)
      in if occurs ''duplicate'' then Inr ''duplicate''
         else if occurs ''cannot find module'' then Inr ''cannot find module''
         else if occurs ''is not a function'' then Inr ''is not a function''
         else if occurs ''expected side effect'' then Inr ''expected side effect''
         else Inl (UnknownErrorCategory err))
   \<and> toLowerCase err =
       map (\<lambda>c. case map_of (zip ''ABCDEFGHIJKLMNOPQRSTUVWXYZ'' ''abcdefghijklmnopqrstuvwxyz'') c of
                  Some l \<Rightarrow> l
                | None \<Rightarrow>
                    if 192 \<le> (of_char c :: nat) \<and> (of_char c :: nat) \<le> 222
                       \<and> (of_char c :: nat) \<noteq> 215
                    then char_of ((of_char c :: nat) + 32) else c) err
   \<and> ((\<forall>c \<in> set categories. \<not> includes_s (toLowerCase err) c) \<longrightarrow>
        categorizeError err = Inl (UnknownErrorCategory err)
      \<and> recordFailure err repro fs = (Some (UnknownErrorCategory err), fs))
   \<and> categorizeError (''Expected side effect '' @ [CHR 0x22] @ effect @ [CHR 0x22]
          @ '' not found in traces for '' @ trialId @ ''.'') \<in> Inr ` set categories"
proof (intro conjI)
  show "categorizeError err =
     (let low = toLowerCase err; occurs = (\<lambda>c. \<exists>p q. low = p @ c @ q)
      in if occurs ''duplicate'' then Inr ''duplicate''
         else if occurs ''cannot find module'' then Inr ''cannot find module''
         else if occurs ''is not a function'' then Inr ''is not a function''
         else if occurs ''expected side effect'' then Inr ''expected side effect''
         else Inl (UnknownErrorCategory err))"
    by (simp add: categorizeError_def categories_def Let_def includes_s_iff[symmetric])
next
  show "toLowerCase err =
       map (\<lambda>c. case map_of (zip ''ABCDEFGHIJKLMNOPQRSTUVWXYZ'' ''abcdefghijklmnopqrstuvwxyz'') c of
                  Some l \<Rightarrow> l
                | None \<Rightarrow>
                    if 192 \<le> (of_char c :: nat) \<and> (of_char c :: nat) \<le> 222
                       \<and> (of_char c :: nat) \<noteq> 215
                    then char_of ((of_char c :: nat) + 32) else c) err"
    unfolding toLowerCase_def by (rule map_cong[OF refl]) (rule toLowerChar_letters)
next
  show "(\<forall>c \<in> set categories. \<not> includes_s (toLowerCase err) c) \<longrightarrow>
        categorizeError err = Inl (UnknownErrorCategory err)
      \<and> recordFailure err repro fs = (Some (UnknownErrorCategory err), fs)"
    by (simp add: categorizeError_def categories_def recordFailure_def)
next
  define rest where "rest = [CHR 0x22] @ effect @ [CHR 0x22]
          @ '' not found in traces for '' @ trialId @ ''.''"
  have "toLowerCase (''Expected side effect '' @ rest)
          = [] @ ''expected side effect'' @ ('' '' @ toLowerCase rest)"
    using toLowerCase_expected by (simp add: toLowerCase_def)
  then have "includes_s (toLowerCase (''Expected side effect '' @ rest)) ''expected side effect''"
    unfolding includes_s_iff by blast
  moreover have "''expected side effect'' \<in> set categories" by (simp add: categories_def)
  ultimately have "firstCategory (''Expected side effect '' @ rest) categories \<in> Inr ` set categories"
    by (intro firstCategory_found) blast
  then show "categorizeError (''Expected side effect '' @ [CHR 0x22] @ effect @ [CHR 0x22]
          @ '' not found in traces for '' @ trialId @ ''.'') \<in> Inr ` set categories"
    by (simp only: categorizeError_def rest_def)
qed

lemma categorizeError_sample:
  "categorizeError (''Expected side effect '' @ [CHR 0x22] @ ''export_e2'' @ [CHR 0x22]
      @ '' not found in traces for '' @ ''t'' @ ''.'') = Inr ''expected side effect''"
  by code_simp

lemma categorizeError_sample_capitals:
  "categorizeError ''TypeError: export_e2 Is Not A Function'' = Inr ''is not a function''"
  by code_simp

theorem categorizeError_first_match_witness:
  "categorizeError ''Boom'' = Inl (UnknownErrorCategory ''Boom'')
   \<and> recordFailure ''Boom'' ''doc'' Map.empty = (Some (UnknownErrorCategory ''Boom''), Map.empty)
   \<and> toLowerCase ''Boom'' = ''boom''
   \<and> categorizeError (''Expected side effect '' @ [CHR 0x22] @ ''export_e2'' @ [CHR 0x22]
        @ '' not found in traces for '' @ ''t'' @ ''.'') = Inr ''expected side effect''
   \<and> categorizeError ''TypeError: export_e2 Is Not A Function'' = Inr ''is not a function''"
proof -
  note inst = categorizeError_first_match[of "''Boom''" "''doc''" Map.empty "''export_e2''" "''t''"]
  have low: "toLowerCase ''Boom'' = ''boom''"
    using inst by simp
  have h: "\<forall>c \<in> set categories. \<not> includes_s (toLowerCase ''Boom'') c"
    unfolding low by (simp add: categories_def)
  have "categorizeError ''Boom'' = Inl (UnknownErrorCategory ''Boom'')
      \<and> recordFailure ''Boom'' ''doc'' Map.empty = (Some (UnknownErrorCategory ''Boom''), Map.empty)"
    using inst h by blast
  with low categorizeError_sample categorizeError_sample_capitals show ?thesis by blast
qed

subsection \<open>Import bindings stay as they are\<close>

lemma repeat_inv:
  assumes "repeat k body s = Inr s'" "P s" "\<And>s s'. P s \<Longrightarrow> body s = Inr s' \<Longrightarrow> P s'"
  shows "P s'"
  using assms(1,2)
proof (induction k arbitrary: s)
  case 0
  then show ?case by simp
next
  case (Suc k)
  from Suc.prems(1) obtain s1 where s1: "body s = Inr s1" "repeat k body s1 = Inr s'"
    by (auto split: sum.splits)
  have "P s1" using assms(3)[OF Suc.prems(2) s1(1)] .
  with Suc.IH[OF s1(2)] show ?case .
qed

lemma forEach_inv:
  assumes "forEach xs body s = Inr s'" "P s" "\<And>x s s'. P s \<Longrightarrow> body x s = Inr s' \<Longrightarrow> P s'"
  shows "P s'"
  using assms(1,2)
proof (induction xs arbitrary: s)
  case Nil
  then show ?case by simp
next
  case (Cons x xs)
  from Cons.prems(1) obtain s1 where s1: "body x s = Inr s1" "forEach xs body s1 = Inr s'"
    by (auto split: sum.splits)
  have "P s1" using assms(3)[OF Cons.prems(2) s1(1)] .
  with Cons.IH[OF s1(2)] show ?case .
qed

lemma importIntoModule_prefix:
  assumes "importIntoModule exported targetModule r = Inr (n, m1, r')"
  shows "prefix (imports_m targetModule) (imports_m m1)"
proof (cases exported targetModule r rule: importIntoModule_cases)
  case (existing b)
  then show ?thesis using assms by simp
next
  case original
  then show ?thesis using assms by simp
next
  case (fresh m r')
  then show ?thesis using assms by auto
qed

lemma reExport_keeps:
  assumes "reExport i (t, r) = Inr (t', r')"
  shows "importsKept t t'"
proof -
  obtain imp r1 where p: "pickRandomExport t r = Inr (imp, r1)"
    using assms by (auto simp: reExport_def split: sum.splits)
  show ?thesis
  proof (cases "name imp \<in> set (originals (modules t ! i))")
    case True
    then have "t' = t" using assms p by (simp add: reExport_def)
    then show ?thesis by (simp add: importsKept_refl)
  next
    case False
    then obtain nm m1 r2 where im: "importIntoModule imp (modules t ! i) r1 = Inr (nm, m1, r2)"
      and t': "t' = t\<lparr>modules := (modules t)
          [i := m1\<lparr>exports_m := exports_m m1 @ [\<lparr>importedFrom = id_m m1, name = nm\<rparr>]\<rparr>]\<rparr>"
      using assms p by (auto simp: reExport_def split: sum.splits)
    have "prefix (imports_m (modules t ! i)) (imports_m m1)"
      using im by (rule importIntoModule_prefix)
    then show ?thesis unfolding t' by (intro importsKept_update) simp
  qed
qed

lemma sideEffect_keeps:
  assumes "sideEffect i (t, r) = Inr (t', r')"
  shows "importsKept t t'"
proof -
  obtain imp r1 where p: "pickRandomExport t r = Inr (imp, r1)"
    using assms by (auto simp: sideEffect_def split: sum.splits)
  show ?thesis
  proof (cases "name imp \<in> set (originals (modules t ! i))")
    case True
    then have "t' = t" using assms p by (simp add: sideEffect_def)
    then show ?thesis by (simp add: importsKept_refl)
  next
    case False
    then obtain nm m1 r2 where im: "importIntoModule imp (modules t ! i) r1 = Inr (nm, m1, r2)"
      and t': "t' = t\<lparr>modules := (modules t)[i := m1\<lparr>sideEffects := sideEffects m1 @ [nm]\<rparr>]\<rparr>"
      using assms p by (auto simp: sideEffect_def split: sum.splits)
    have "prefix (imports_m (modules t ! i)) (imports_m m1)"
      using im by (rule importIntoModule_prefix)
    then show ?thesis unfolding t' by (intro importsKept_update) simp
  qed
qed

lemma reExportsOfModule_keeps:
  assumes "reExportsOfModule i (t, r) = Inr (t', r')"
  shows "importsKept t t'"
proof -
  obtain k r1 where kr: "random 0 5 r = (k, r1)" by (cases "random 0 5 r")
  have rp: "repeat (nat k) (reExport i) (t, r1) = Inr (t', r')"
    using assms by (simp add: reExportsOfModule_def kr)
  have "importsKept t (fst (t', r'))"
  proof (rule repeat_inv[OF rp, where P = "\<lambda>s. importsKept t (fst s)"])
    show "importsKept t (fst (t, r1))" by (simp add: importsKept_refl)
  next
    fix s s' assume "importsKept t (fst s)" "reExport i s = Inr s'"
    then show "importsKept t (fst s')"
      using reExport_keeps[of i "fst s" "snd s" "fst s'" "snd s'"] importsKept_trans by auto
  qed
  then show ?thesis by simp
qed

lemma sideEffectsOfModule_keeps:
  assumes "sideEffectsOfModule i (t, r) = Inr (t', r')"
  shows "importsKept t t'"
proof -
  obtain k r1 where kr: "random 0 5 r = (k, r1)" by (cases "random 0 5 r")
  have rp: "repeat (nat k) (sideEffect i) (t, r1) = Inr (t', r')"
    using assms by (simp add: sideEffectsOfModule_def kr)
  have "importsKept t (fst (t', r'))"
  proof (rule repeat_inv[OF rp, where P = "\<lambda>s. importsKept t (fst s)"])
    show "importsKept t (fst (t, r1))" by (simp add: importsKept_refl)
  next
    fix s s' assume "importsKept t (fst s)" "sideEffect i s = Inr s'"
    then show "importsKept t (fst s')"
      using sideEffect_keeps[of i "fst s" "snd s" "fst s'" "snd s'"] importsKept_trans by auto
  qed
  then show ?thesis by simp
qed

lemma addReExports_keeps:
  assumes "addReExports (t, r) = Inr (t', r')"
  shows "importsKept t t'"
proof -
  have fe: "forEach [0..<length (modules t)] reExportsOfModule (t, r) = Inr (t', r')"
    using assms by (simp add: addReExports_def)
  have "importsKept t (fst (t', r'))"
  proof (rule forEach_inv[OF fe, where P = "\<lambda>s. importsKept t (fst s)"])
    show "importsKept t (fst (t, r))" by (simp add: importsKept_refl)
  next
    fix i s s' assume "importsKept t (fst s)" "reExportsOfModule i s = Inr s'"
    then show "importsKept t (fst s')"
      using reExportsOfModule_keeps[of i "fst s" "snd s" "fst s'" "snd s'"] importsKept_trans by auto
  qed
  then show ?thesis by simp
qed

lemma addSideEffects_keeps:
  assumes "addSideEffects (t, r) = Inr (t', r')"
  shows "importsKept t t'"
proof -
  have fe: "forEach [0..<length (modules t)] sideEffectsOfModule (t, r) = Inr (t', r')"
    using assms by (simp add: addSideEffects_def)
  have "importsKept t (fst (t', r'))"
  proof (rule forEach_inv[OF fe, where P = "\<lambda>s. importsKept t (fst s)"])
    show "importsKept t (fst (t, r))" by (simp add: importsKept_refl)
  next
    fix i s s' assume "importsKept t (fst s)" "sideEffectsOfModule i s = Inr s'"
    then show "importsKept t (fst s')"
      using sideEffectsOfModule_keeps[of i "fst s" "snd s" "fst s'" "snd s'"] importsKept_trans by auto
  qed
  then show ?thesis by simp
qed

lemma newOriginal_keeps: "importsKept t (newOriginal i t)"
proof -
  have "importsKept t (t\<lparr>modules := (modules t)
         [i := (modules t ! i)
            \<lparr>originals := originals (modules t ! i) @ [''export_e'' @ toString36 (internalIdIncrementor t)],
             exports_m := exports_m (modules t ! i) @
               [\<lparr>importedFrom = id_m (modules t ! i),
                 name = ''export_e'' @ toString36 (internalIdIncrementor t)\<rparr>]\<rparr>]\<rparr>)"
    by (intro importsKept_update) simp
  then show ?thesis by (simp add: newOriginal_eq importsKept_def)
qed

lemma newOriginal_loop_keeps: "importsKept t ((newOriginal i ^^ k) t)"
proof (induction k)
  case 0
  then show ?case by (simp add: importsKept_refl)
next
  case (Suc k)
  then show ?case using newOriginal_keeps importsKept_trans by auto
qed

lemma addOriginalExports_keeps: "importsKept t (fst (addOriginalExports (t, r)))"
proof -
  have "importsKept t (fst (fold originalsOfModule xs (t0, r0)))" if "importsKept t t0" for xs t0 r0
    using that
  proof (induction xs arbitrary: t0 r0)
    case Nil
    then show ?case by simp
  next
    case (Cons i xs)
    obtain k r1 where kr: "random 1 5 r0 = (k, r1)" by (cases "random 1 5 r0")
    have "importsKept t ((newOriginal i ^^ nat k) t0)"
      using Cons.prems newOriginal_loop_keeps importsKept_trans by blast
    then show ?case using Cons.IH by (simp add: originalsOfModule_def kr)
  qed
  then show ?thesis by (simp add: addOriginalExports_def importsKept_refl)
qed

subsection \<open>The sort of the examples\<close>

lemma sampleInsert_mset: "mset (fst (sampleInsert comparefn x ys r)) = add_mset x (mset ys)"
proof (induction ys arbitrary: r)
  case Nil
  then show ?case by simp
next
  case (Cons y ys)
  obtain c r1 where c: "comparefn y x r = (c, r1)" by (cases "comparefn y x r")
  show ?case using Cons[of r1] by (auto simp: c split: prod.splits)
qed

lemma sampleSort_mset: "mset (fst (sampleSort comparefn xs r)) = mset xs"
proof (induction xs arbitrary: r)
  case Nil
  then show ?case by simp
next
  case (Cons x xs)
  obtain ys r1 where s: "sampleSort comparefn xs r = (ys, r1)"
    by (cases "sampleSort comparefn xs r")
  have "mset ys = mset xs" using Cons[of r] s by simp
  then show ?case by (simp add: s sampleInsert_mset)
qed

lemma permutes_sampleSort: "permutes sampleSort"
  by (simp add: permutes_def sampleSort_mset)

subsection \<open>The sample trial\<close>

lemma generate_sample:
  "map_sum id fst (generate sampleDraws) = Inr (sampleTrial\<lparr>entrypoints := [], modules := [sampleModule0, sampleModule1]\<rparr>)"
  by code_simp

lemma plan_sample: "map_sum id fst (plan sampleSort sampleDraws) = Inr sampleTrial"
  by code_simp

lemma analyze_sample:
  "analyzeSideEffects 3 (modules sampleTrial) ''e1'' ([], {}) = Some ([''e1'', ''e0''], {''export_e2'', ''export_e3''})"
  by code_simp

text \<open>
  Claim C1. On any list of modules, import cycles included, \<open>analyzeSideEffects\<close> returns
  from any start: a depth of recursion above the number of modules is enough, every such depth gives
  the same result, and the set of names returned is finite. A call on an id that is
  already in \<open>traced\<close> returns at once and changes nothing.
\<close>

theorem analyzeSideEffects_terminates:
  "(\<exists>traced effects.
       analyzeSideEffects (Suc (length (modules t))) (modules t) i ([], {}) = Some (traced, effects)
     \<and> expectedSideEffects t i = Some effects \<and> finite effects
     \<and> (\<forall>depth > length (modules t).
           analyzeSideEffects depth (modules t) i ([], {}) = Some (traced, effects)))
   \<and> (i \<in> set traced0 \<longrightarrow>
        analyzeSideEffects (Suc depth0) (modules t) i (traced0, effects0) = Some (traced0, effects0))"
proof
  have "card (id_m ` set (modules t) - set []) < Suc (length (modules t))"
    using card_ids_le[of "modules t" "[]"] by simp
  from analyzeSideEffects_total[OF this, of "{}" i] obtain traced effects
    where a: "analyzeSideEffects (Suc (length (modules t))) (modules t) i ([], {}) = Some (traced, effects)"
      and f: "finite effects" by auto
  have "analyzeSideEffects depth (modules t) i ([], {}) = Some (traced, effects)"
    if "length (modules t) < depth" for depth
    using a that by (intro analyzeSideEffects_deeper[OF a]) simp
  with a f show "\<exists>traced effects.
       analyzeSideEffects (Suc (length (modules t))) (modules t) i ([], {}) = Some (traced, effects)
     \<and> expectedSideEffects t i = Some effects \<and> finite effects
     \<and> (\<forall>depth > length (modules t).
           analyzeSideEffects depth (modules t) i ([], {}) = Some (traced, effects))"
    by (auto simp: expectedSideEffects_def)
next
  show "i \<in> set traced0 \<longrightarrow>
        analyzeSideEffects (Suc depth0) (modules t) i (traced0, effects0) = Some (traced0, effects0)"
    by (auto split: option.splits dest: find_id_Some)
qed

theorem analyzeSideEffects_terminates_witness:
  "analyzeSideEffects 3 (modules sampleTrial) ''e1'' ([], {})
     = Some ([''e1'', ''e0''], {''export_e2'', ''export_e3''})
   \<and> expectedSideEffects sampleTrial ''e1'' = Some {''export_e2'', ''export_e3''}
   \<and> analyzeSideEffects 1 (modules sampleTrial) ''e1'' ([''e1''], {}) = Some ([''e1''], {})"
proof -
  have len: "length (modules sampleTrial) = 2" by (simp add: sampleTrial_def)
  have mem: "''e1'' \<in> set [''e1'']" by simp
  show ?thesis
    using analyzeSideEffects_terminates[of sampleTrial "''e1''" "[''e1'']" 0 "{}"] analyze_sample len mem
    by (auto simp: numeral_3_eq_3)
qed

subsection \<open>Properties of every generated trial\<close>

lemma generate_sample_trial:
  assumes "generate sampleDraws = Inr (t, r')"
  shows "t = sampleTrial\<lparr>entrypoints := [], modules := [sampleModule0, sampleModule1]\<rparr>"
  using generate_sample assms by simp

lemma plan_sample_trial:
  assumes "plan sampleSort sampleDraws = Inr (t, r')"
  shows "t = sampleTrial"
  using plan_sample assms by simp




text \<open>
  Whatever the sort, \<open>plan\<close> returns once the passes have, with the array the sort left as
  the modules and its first elements as the entrypoints.
\<close>

lemma plan_shape:
  obtains t0 r0 ms r1 k r2 where "generate r = Inr (t0, r0)" "wellFormed t0"
    "2 \<le> length (modules t0)" "length (modules t0) \<le> 5"
    "sort_e shuffleCompare (modules t0) r0 = (ms, r1)"
    "random 1 (min 3 (int (length ms))) r1 = (k, r2)"
    "chooseEntrypoints sort_e (t0, r0) = (t0\<lparr>modules := ms, entrypoints := take (nat k) ms\<rparr>, r2)"
    "plan sort_e r = Inr (t0\<lparr>modules := ms, entrypoints := take (nat k) ms\<rparr>, r2)"
    "permutes sort_e \<longrightarrow> mset ms = mset (modules t0)"
proof -
  obtain t0 r0 where g: "generate r = Inr (t0, r0)" "wellFormed t0"
    "2 \<le> length (modules t0)" "length (modules t0) \<le> 5"
    by (rule generate_total)
  obtain ms r1 k r2 where s: "sort_e shuffleCompare (modules t0) r0 = (ms, r1)"
    and k: "random 1 (min 3 (int (length ms))) r1 = (k, r2)"
    and c: "chooseEntrypoints sort_e (t0, r0) = (t0\<lparr>modules := ms, entrypoints := take (nat k) ms\<rparr>, r2)"
    by (rule chooseEntrypoints_eq)
  have p: "plan sort_e r = Inr (t0\<lparr>modules := ms, entrypoints := take (nat k) ms\<rparr>, r2)"
    using g(1) c by (simp add: plan_def)
  have "permutes sort_e \<longrightarrow> mset ms = mset (modules t0)"
    using s unfolding permutes_def by (metis fst_conv)
  with g s k c p show ?thesis using that by blast
qed

lemma permutes_sampleSort_modules:
  "permutes (sampleSort :: TrialModule engine_sort)"
  by (rule permutes_sampleSort)

text \<open>
  Claim C6. After the four passes no module of the trial imports a name that is one of its
  own originals; with a sort that rearranges the array, the same holds of every module and
  every entrypoint after the entrypoints are chosen; and \<open>importIntoModule\<close>, the one
  operation that adds an import, keeps any module so.
\<close>

theorem no_self_import:
  "(\<exists>t0 r0 t r'. generate r = Inr (t0, r0) \<and> plan sort_e r = Inr (t, r')
       \<and> (\<forall>m \<in> set (modules t0). \<forall>b \<in> set (imports_m m). name b \<notin> set (originals m))
       \<and> (permutes sort_e \<longrightarrow>
            (\<forall>m \<in> set (modules t) \<union> set (entrypoints t).
               \<forall>b \<in> set (imports_m m). name b \<notin> set (originals m))))
   \<and> ((\<forall>b \<in> set (imports_m targetModule). name b \<notin> set (originals targetModule)) \<longrightarrow>
        (\<exists>m1 r1. importIntoModule exported targetModule r2 = Inr (name exported, m1, r1)
           \<and> originals m1 = originals targetModule
           \<and> (\<forall>b \<in> set (imports_m m1). name b \<notin> set (originals m1))))"
proof
  obtain t0 r0 ms k r' where p: "generate r = Inr (t0, r0)" "wellFormed t0"
    "plan sort_e r = Inr (t0\<lparr>modules := ms, entrypoints := take (nat k) ms\<rparr>, r')"
    "permutes sort_e \<longrightarrow> mset ms = mset (modules t0)"
    using plan_shape[of r sort_e] by metis
  define t where "t = t0\<lparr>modules := ms, entrypoints := take (nat k) ms\<rparr>"
  have a: "\<forall>m \<in> set (modules t0). \<forall>b \<in> set (imports_m m). name b \<notin> set (originals m)"
    using p(2) by (auto simp: wellFormed_def moduleOK_def)
  have b: "\<forall>m \<in> set (modules t) \<union> set (entrypoints t).
               \<forall>b \<in> set (imports_m m). name b \<notin> set (originals m)" if "permutes sort_e"
  proof -
    have "set ms = set (modules t0)" using p(4) that by (metis mset_eq_setD)
    moreover have "set (take (nat k) ms) \<subseteq> set ms" by (rule set_take_subset)
    ultimately show ?thesis using a by (auto simp: t_def)
  qed
  from p(1,3) a b show "\<exists>t0 r0 t r'. generate r = Inr (t0, r0) \<and> plan sort_e r = Inr (t, r')
       \<and> (\<forall>m \<in> set (modules t0). \<forall>b \<in> set (imports_m m). name b \<notin> set (originals m))
       \<and> (permutes sort_e \<longrightarrow>
            (\<forall>m \<in> set (modules t) \<union> set (entrypoints t).
               \<forall>b \<in> set (imports_m m). name b \<notin> set (originals m)))"
    unfolding t_def by blast
next
  show "(\<forall>b \<in> set (imports_m targetModule). name b \<notin> set (originals targetModule)) \<longrightarrow>
        (\<exists>m1 r1. importIntoModule exported targetModule r2 = Inr (name exported, m1, r1)
           \<and> originals m1 = originals targetModule
           \<and> (\<forall>b \<in> set (imports_m m1). name b \<notin> set (originals m1)))"
  proof
    assume a: "\<forall>b \<in> set (imports_m targetModule). name b \<notin> set (originals targetModule)"
    show "\<exists>m1 r1. importIntoModule exported targetModule r2 = Inr (name exported, m1, r1)
           \<and> originals m1 = originals targetModule
           \<and> (\<forall>b \<in> set (imports_m m1). name b \<notin> set (originals m1))"
    proof (cases exported targetModule r2 rule: importIntoModule_cases)
      case (existing b)
      then show ?thesis using a by simp
    next
      case original
      then show ?thesis using a by simp
    next
      case (fresh m r')
      then show ?thesis using a by simp
    qed
  qed
qed

theorem no_self_import_witness:
  "name \<lparr>importedFrom = ''e1'', name = ''export_e3'', means = Static\<rparr> \<notin> set (originals sampleModule0)
   \<and> importIntoModule \<lparr>importedFrom = ''e0'', name = ''export_e2''\<rparr> sampleModule0 []
        = Inr (''export_e2'', sampleModule0, [])"
proof -
  define imp where "imp = \<lparr>importedFrom = ''e1'', name = ''export_e3'', means = Static\<rparr>"
  define own where "own = \<lparr>importedFrom = ''e0'', name = ''export_e2''\<rparr>"
  have h: "\<forall>b \<in> set (imports_m sampleModule0). name b \<notin> set (originals sampleModule0)"
    by (simp add: sampleModule0_def)
  have e: "importIntoModule own sampleModule0 [] = Inr (''export_e2'', sampleModule0, [])"
    by (simp add: importIntoModule_def sampleModule0_def own_def)
  note inst = no_self_import[of sampleDraws sampleSort sampleModule0 own "[]"]
  obtain t r' where pl: "plan sampleSort sampleDraws = Inr (t, r')"
    and all: "\<forall>m \<in> set (entrypoints t). \<forall>b \<in> set (imports_m m). name b \<notin> set (originals m)"
    using inst permutes_sampleSort_modules by blast
  have t: "t = sampleTrial" using pl by (rule plan_sample_trial)
  have "sampleModule0 \<in> set (entrypoints t)" by (simp add: t sampleTrial_def)
  moreover have "imp \<in> set (imports_m sampleModule0)" by (simp add: sampleModule0_def imp_def)
  ultimately have "name imp \<notin> set (originals sampleModule0)" using all by blast
  moreover have "\<exists>m1 r1. importIntoModule own sampleModule0 [] = Inr (name own, m1, r1)"
    using inst h by blast
  ultimately show ?thesis using e by (simp add: imp_def own_def)
qed

lemma generate_stages:
  obtains t1 r1 t2 r2 t3 r3 where
    "addOriginalExports (seedInitialModules (newTrial, r)) = (t1, r1)" "wellFormed t1"
    "addReExports (t1, r1) = Inr (t2, r2)" "wellFormed t2" "importsKept t1 t2"
    "addSideEffects (t2, r2) = Inr (t3, r3)" "wellFormed t3" "importsKept t2 t3"
    "generate r = Inr (t3, r3)" "2 \<le> length (modules t1)"
proof -
  obtain t1 r1 where s1: "addOriginalExports (seedInitialModules (newTrial, r)) = (t1, r1)"
    "wellFormed t1" "2 \<le> length (modules t1)"
    using originals_wellFormed[of r] by metis
  obtain t2 r2 where s2: "addReExports (t1, r1) = Inr (t2, r2)" "wellFormed t2" "importsKept t1 t2"
    using addReExports_total[OF s1(2), of r1] by blast
  obtain t3 r3 where s3: "addSideEffects (t2, r2) = Inr (t3, r3)" "wellFormed t3" "importsKept t2 t3"
    using addSideEffects_total[OF s2(2), of r2] by blast
  have "generate r = Inr (t3, r3)" using s1(1) s2(1) s3(1) by (simp add: generate_def)
  then show ?thesis using that s1 s2 s3 by blast
qed

lemma map_sum_fst_Inr:
  assumes "map_sum id fst x = Inr t"
  obtains r where "x = Inr (t, r)"
  using assms by (cases x) auto

lemma reExport_sample:
  "map_sum id fst (reExport 0 (sampleTrial, [float_of 1 5, float_of 1 4])) = Inr sampleTrial"
  by code_simp

lemma sideEffect_sample:
  "map_sum id fst (sideEffect 0 (sampleTrial, [float_of 1 5, float_of 1 4])) = Inr sampleTrial"
  by code_simp

lemma addReExports_sample:
  "map_sum id fst (addReExports (sampleTrial, [float_of 1 5, float_of 1 4]))
     = Inr (sampleTrial\<lparr>modules :=
         [sampleModule1\<lparr>exports_m := exports_m sampleModule1 @
              [\<lparr>importedFrom = ''e1'', name = ''export_e2''\<rparr>]\<rparr>, sampleModule0]\<rparr>)"
  by code_simp

lemma addSideEffects_sample:
  "map_sum id fst (addSideEffects (sampleTrial, [float_of 1 5, float_of 1 4]))
     = Inr (sampleTrial\<lparr>modules :=
         [sampleModule1\<lparr>sideEffects := sideEffects sampleModule1 @ [''export_e2'']\<rparr>,
          sampleModule0]\<rparr>)"
  by code_simp

text \<open>
  Claim C7. After the re-export pass and after the side-effect pass no module holds two
  import bindings of one name, and with a sort that rearranges the array the same holds
  after the entrypoints are chosen. A binding, once in a module's imports list, stays
  there as it is, name, origin and binding mode: from any trial whatever, one step of the
  re-export pass, one step of the side-effect pass, each of the two passes as a whole and
  the original-exports pass leave every module's imports list as a prefix of the list the
  module has afterwards, and \<open>importIntoModule\<close> only ever appends to the list, and never
  a name that is there already.
\<close>

theorem imports_unique_and_fixed:
  "(\<exists>t1 r1 t2 r2 t3 r3 t r'.
       addOriginalExports (seedInitialModules (newTrial, r)) = (t1, r1)
     \<and> addReExports (t1, r1) = Inr (t2, r2) \<and> addSideEffects (t2, r2) = Inr (t3, r3)
     \<and> plan sort_e r = Inr (t, r')
     \<and> importsKept t1 t2 \<and> importsKept t2 t3
     \<and> (\<forall>m \<in> set (modules t2) \<union> set (modules t3). distinct (map name (imports_m m)))
     \<and> (permutes sort_e \<longrightarrow> mset (modules t) = mset (modules t3)
          \<and> (\<forall>m \<in> set (modules t) \<union> set (entrypoints t). distinct (map name (imports_m m)))))
   \<and> (distinct (map name (imports_m targetModule)) \<longrightarrow>
        (\<exists>m1 r1. importIntoModule exported targetModule r2 = Inr (name exported, m1, r1)
           \<and> prefix (imports_m targetModule) (imports_m m1)
           \<and> distinct (map name (imports_m m1))))
   \<and> (\<forall>n m1 r1. importIntoModule exported targetModule r2 = Inr (n, m1, r1) \<longrightarrow>
          prefix (imports_m targetModule) (imports_m m1))
   \<and> (\<forall>tb rb. reExport i (ta, ra) = Inr (tb, rb) \<longrightarrow> importsKept ta tb)
   \<and> (\<forall>tb rb. sideEffect i (ta, ra) = Inr (tb, rb) \<longrightarrow> importsKept ta tb)
   \<and> (\<forall>tb rb. addReExports (ta, ra) = Inr (tb, rb) \<longrightarrow> importsKept ta tb)
   \<and> (\<forall>tb rb. addSideEffects (ta, ra) = Inr (tb, rb) \<longrightarrow> importsKept ta tb)
   \<and> importsKept ta (fst (addOriginalExports (ta, ra)))"
proof (intro conjI)
  obtain t1 r1 t2 r2 t3 r3 where s:
    "addOriginalExports (seedInitialModules (newTrial, r)) = (t1, r1)"
    "addReExports (t1, r1) = Inr (t2, r2)" "wellFormed t2" "importsKept t1 t2"
    "addSideEffects (t2, r2) = Inr (t3, r3)" "wellFormed t3" "importsKept t2 t3"
    "generate r = Inr (t3, r3)"
    using generate_stages[of r] by metis
  obtain ms r1' k r' where c:
    "sort_e shuffleCompare (modules t3) r3 = (ms, r1')"
    "chooseEntrypoints sort_e (t3, r3) = (t3\<lparr>modules := ms, entrypoints := take (nat k) ms\<rparr>, r')"
    using chooseEntrypoints_eq[of sort_e t3 r3] by metis
  define t where "t = t3\<lparr>modules := ms, entrypoints := take (nat k) ms\<rparr>"
  have pl: "plan sort_e r = Inr (t, r')" using s(8) c(2) by (simp add: plan_def t_def)
  have d: "\<forall>m \<in> set (modules t2) \<union> set (modules t3). distinct (map name (imports_m m))"
    using s(3,6) by (auto simp: wellFormed_def moduleOK_def)
  have e: "mset (modules t) = mset (modules t3)
          \<and> (\<forall>m \<in> set (modules t) \<union> set (entrypoints t). distinct (map name (imports_m m)))"
    if "permutes sort_e"
  proof -
    have ms: "mset ms = mset (modules t3)"
      using that c(1) unfolding permutes_def by (metis fst_conv)
    then have "set ms = set (modules t3)" by (rule mset_eq_setD)
    moreover have "set (take (nat k) ms) \<subseteq> set ms" by (rule set_take_subset)
    ultimately show ?thesis using d ms by (auto simp: t_def)
  qed
  from s(1,2,4,5,7) pl d e show "\<exists>t1 r1 t2 r2 t3 r3 t r'.
       addOriginalExports (seedInitialModules (newTrial, r)) = (t1, r1)
     \<and> addReExports (t1, r1) = Inr (t2, r2) \<and> addSideEffects (t2, r2) = Inr (t3, r3)
     \<and> plan sort_e r = Inr (t, r')
     \<and> importsKept t1 t2 \<and> importsKept t2 t3
     \<and> (\<forall>m \<in> set (modules t2) \<union> set (modules t3). distinct (map name (imports_m m)))
     \<and> (permutes sort_e \<longrightarrow> mset (modules t) = mset (modules t3)
          \<and> (\<forall>m \<in> set (modules t) \<union> set (entrypoints t). distinct (map name (imports_m m))))"
    by blast
next
  show "distinct (map name (imports_m targetModule)) \<longrightarrow>
        (\<exists>m1 r1. importIntoModule exported targetModule r2 = Inr (name exported, m1, r1)
           \<and> prefix (imports_m targetModule) (imports_m m1)
           \<and> distinct (map name (imports_m m1)))"
  proof
    assume a: "distinct (map name (imports_m targetModule))"
    show "\<exists>m1 r1. importIntoModule exported targetModule r2 = Inr (name exported, m1, r1)
           \<and> prefix (imports_m targetModule) (imports_m m1)
           \<and> distinct (map name (imports_m m1))"
    proof (cases exported targetModule r2 rule: importIntoModule_cases)
      case (existing b)
      then show ?thesis using a by simp
    next
      case original
      then show ?thesis using a by simp
    next
      case (fresh m r')
      have "\<forall>b \<in> set (imports_m targetModule). name b \<noteq> name exported"
        using fresh(1) by (simp add: find_None_iff)
      then have "name exported \<notin> set (map name (imports_m targetModule))" by auto
      then show ?thesis using a fresh(4) by simp
    qed
  qed
next
  show "\<forall>n m1 r1. importIntoModule exported targetModule r2 = Inr (n, m1, r1) \<longrightarrow>
          prefix (imports_m targetModule) (imports_m m1)"
    using importIntoModule_prefix by blast
next
  show "\<forall>tb rb. reExport i (ta, ra) = Inr (tb, rb) \<longrightarrow> importsKept ta tb"
    using reExport_keeps by blast
next
  show "\<forall>tb rb. sideEffect i (ta, ra) = Inr (tb, rb) \<longrightarrow> importsKept ta tb"
    using sideEffect_keeps by blast
next
  show "\<forall>tb rb. addReExports (ta, ra) = Inr (tb, rb) \<longrightarrow> importsKept ta tb"
    using addReExports_keeps by blast
next
  show "\<forall>tb rb. addSideEffects (ta, ra) = Inr (tb, rb) \<longrightarrow> importsKept ta tb"
    using addSideEffects_keeps by blast
next
  show "importsKept ta (fst (addOriginalExports (ta, ra)))"
    by (rule addOriginalExports_keeps)
qed

theorem imports_unique_and_fixed_witness:
  "distinct (map name (imports_m sampleModule1))
   \<and> importIntoModule \<lparr>importedFrom = ''e1'', name = ''export_e9''\<rparr> sampleModule0 []
        = Inr (''export_e9'',
               sampleModule0\<lparr>imports_m := imports_m sampleModule0 @
                  [\<lparr>importedFrom = ''e1'', name = ''export_e9'', means = Static\<rparr>]\<rparr>, [])
   \<and> prefix (imports_m sampleModule0)
        (imports_m sampleModule0 @ [\<lparr>importedFrom = ''e1'', name = ''export_e9'', means = Static\<rparr>])
   \<and> prefix [\<lparr>importedFrom = ''e0'', name = ''export_e2'', means = Dynamic\<rparr>]
        (imports_m (modules (fst (projr (addReExports
            (sampleTrial, [float_of 1 5, float_of 1 4])))) ! 0))
   \<and> prefix [\<lparr>importedFrom = ''e0'', name = ''export_e2'', means = Dynamic\<rparr>]
        (imports_m (modules (fst (projr (addSideEffects
            (sampleTrial, [float_of 1 5, float_of 1 4])))) ! 0))"
proof -
  define new where "new = \<lparr>importedFrom = ''e1'', name = ''export_e9''\<rparr>"
  define ra where "ra = [float_of 1 5, float_of 1 4]"
  have h: "distinct (map name (imports_m sampleModule0))" by (simp add: sampleModule0_def)
  have e: "importIntoModule new sampleModule0 []
        = Inr (''export_e9'',
               sampleModule0\<lparr>imports_m := imports_m sampleModule0 @
                  [\<lparr>importedFrom = ''e1'', name = ''export_e9'', means = Static\<rparr>]\<rparr>, [])"
    by (simp add: importIntoModule_def sampleModule0_def new_def pick_def random_def
        Math_random_def float_of.rep_eq at_index_def unwrap_def)
  note inst = imports_unique_and_fixed[of sampleDraws sampleSort sampleModule0 new "[]" 0 sampleTrial ra]
  from inst[THEN conjunct1] obtain t3 :: Trial and t r' where pl: "plan sampleSort sampleDraws = Inr (t, r')"
    and imp: "permutes (sampleSort :: TrialModule engine_sort)
          \<longrightarrow> mset (modules t) = mset (modules t3)
          \<and> (\<forall>m \<in> set (modules t) \<union> set (entrypoints t). distinct (map name (imports_m m)))"
    by blast
  have all: "\<forall>m \<in> set (entrypoints t). distinct (map name (imports_m m))"
    using imp permutes_sampleSort_modules by blast
  have t: "t = sampleTrial" using pl by (rule plan_sample_trial)
  have d: "distinct (map name (imports_m sampleModule1))"
    using all by (simp add: t sampleTrial_def)
  obtain m1 r1 where "importIntoModule new sampleModule0 [] = Inr (name new, m1, r1)"
    "prefix (imports_m sampleModule0) (imports_m m1)"
    using inst h by blast
  with e have p0: "prefix (imports_m sampleModule0)
        (imports_m sampleModule0 @ [\<lparr>importedFrom = ''e1'', name = ''export_e9'', means = Static\<rparr>])"
    by simp
  have first: "imports_m (modules sampleTrial ! 0)
      = [\<lparr>importedFrom = ''e0'', name = ''export_e2'', means = Dynamic\<rparr>]"
    by (simp add: sampleTrial_def sampleModule1_def)
  have len: "0 < length (modules sampleTrial)" by (simp add: sampleTrial_def)
  obtain rb where "reExport 0 (sampleTrial, ra) = Inr (sampleTrial, rb)"
    using reExport_sample unfolding ra_def by (rule map_sum_fst_Inr)
  then have "importsKept sampleTrial sampleTrial" using inst by blast
  obtain rc where "sideEffect 0 (sampleTrial, ra) = Inr (sampleTrial, rc)"
    using sideEffect_sample unfolding ra_def by (rule map_sum_fst_Inr)
  then have "importsKept sampleTrial sampleTrial" using inst by blast
  obtain tb rb where re: "addReExports (sampleTrial, ra) = Inr (tb, rb)"
    using addReExports_sample unfolding ra_def by (rule map_sum_fst_Inr)
  then have "importsKept sampleTrial tb" using inst by blast
  then have p1: "prefix [\<lparr>importedFrom = ''e0'', name = ''export_e2'', means = Dynamic\<rparr>]
      (imports_m (modules tb ! 0))"
    using len first unfolding importsKept_def by metis
  obtain tc rc where se: "addSideEffects (sampleTrial, ra) = Inr (tc, rc)"
    using addSideEffects_sample unfolding ra_def by (rule map_sum_fst_Inr)
  then have "importsKept sampleTrial tc" using inst by blast
  then have p2: "prefix [\<lparr>importedFrom = ''e0'', name = ''export_e2'', means = Dynamic\<rparr>]
      (imports_m (modules tc ! 0))"
    using len first unfolding importsKept_def by metis
  have q1: "prefix [\<lparr>importedFrom = ''e0'', name = ''export_e2'', means = Dynamic\<rparr>]
      (imports_m (modules (fst (projr (addReExports (sampleTrial, ra)))) ! 0))"
    using p1 by (simp add: re)
  have q2: "prefix [\<lparr>importedFrom = ''e0'', name = ''export_e2'', means = Dynamic\<rparr>]
      (imports_m (modules (fst (projr (addSideEffects (sampleTrial, ra)))) ! 0))"
    using p2 by (simp add: se)
  show ?thesis
    using e[unfolded new_def] d p0 q1[unfolded ra_def] q2[unfolded ra_def] by blast
qed



lemma recursion_noop_on:
  assumes ok: "\<forall>m \<in> set ms. moduleOK m"
  shows "recursionIsNoop ms"
  unfolding recursionIsNoop_def
proof
  have ids: "\<forall>m \<in> set ms. isModuleId (id_m m)" using ok by (simp add: moduleOK_def)
  have none: "find (\<lambda>m'. id_m m' = n) ms = None"
    if "m \<in> set ms" "n \<in> set (sideEffects m)" for m n
  proof -
    have "isExportName n" using ok that by (simp add: moduleOK_def)
    with ids show ?thesis by (rule name_finds_no_module)
  qed
  show "\<forall>m \<in> set ms. isModuleId (id_m m)
              \<and> (\<forall>n \<in> set (sideEffects m). isExportName n
                    \<and> find (\<lambda>m'. id_m m' = n) ms = None
                    \<and> (\<forall>depth st. analyzeSideEffects (Suc depth) ms n st = Some st))"
    using ok none by (auto simp: moduleOK_def analyzeSideEffects_no_module)
  show "\<forall>i. \<exists>res. analyzeSideEffects (Suc (length ms)) ms i ([], {}) = Some res
                  \<and> analyzeImportsOnly (Suc (length ms)) ms i ([], {}) = Some res"
  proof
    fix i
    have "card (id_m ` set ms - set []) < Suc (length ms)"
      using card_ids_le[of ms "[]"] by simp
    from analyzeSideEffects_total[OF this, of "{}" i] obtain res
      where r: "analyzeSideEffects (Suc (length ms)) ms i ([], {}) = Some res"
      by auto
    have "analyzeImportsOnly (Suc (length ms)) ms i ([], {}) = Some res"
      using none r by (intro analyzeSideEffects_importsOnly) blast+
    with r show "\<exists>res. analyzeSideEffects (Suc (length ms)) ms i ([], {}) = Some res
                  \<and> analyzeImportsOnly (Suc (length ms)) ms i ([], {}) = Some res" by blast
  qed
qed

lemma recursionIsNoop_expected:
  assumes "recursionIsNoop (modules t)"
  shows "expectedSideEffects t i =
      map_option snd (analyzeImportsOnly (Suc (length (modules t))) (modules t) i ([], {}))"
proof -
  obtain res where "analyzeSideEffects (Suc (length (modules t))) (modules t) i ([], {}) = Some res"
    "analyzeImportsOnly (Suc (length (modules t))) (modules t) i ([], {}) = Some res"
    using assms unfolding recursionIsNoop_def by blast
  then show ?thesis by (simp add: expectedSideEffects_def)
qed

text \<open>
  Claim C9. No string is both a module id and an export name. In every generated trial
  every side-effect name is an export name and every module id a module id, so on any
  list made of the trial's modules \<open>analyzeSideEffects\<close> on a side-effect name finds no
  module and returns \<open>traced\<close> and \<open>effects\<close> as they are, and the traversal without that
  recursive call returns the same result from every start. With a sort that rearranges
  the array, the list of modules that \<open>run\<close> analyses is such a list, and the expected side
  effects of every start are those of the traversal without the call.
\<close>

theorem side_effect_recursion_is_noop:
  "\<not> (isModuleId s \<and> isExportName s)
   \<and> (\<exists>t0 r0 t r'. generate r = Inr (t0, r0) \<and> plan sort_e r = Inr (t, r')
        \<and> (\<forall>ms. set ms \<subseteq> set (modules t0) \<longrightarrow> recursionIsNoop ms)
        \<and> (permutes sort_e \<longrightarrow>
              recursionIsNoop (modules t)
            \<and> (\<forall>i. expectedSideEffects t i =
                  map_option snd
                    (analyzeImportsOnly (Suc (length (modules t))) (modules t) i ([], {})))))"
proof
  show "\<not> (isModuleId s \<and> isExportName s)" using ids_names_disjoint by blast
next
  obtain t0 r0 ms k r' where p: "generate r = Inr (t0, r0)" "wellFormed t0"
    "plan sort_e r = Inr (t0\<lparr>modules := ms, entrypoints := take (nat k) ms\<rparr>, r')"
    "permutes sort_e \<longrightarrow> mset ms = mset (modules t0)"
    using plan_shape[of r sort_e] by metis
  define t where "t = t0\<lparr>modules := ms, entrypoints := take (nat k) ms\<rparr>"
  have ok0: "\<forall>m \<in> set (modules t0). moduleOK m" using p(2) by (simp add: wellFormed_def)
  have a: "\<forall>ms. set ms \<subseteq> set (modules t0) \<longrightarrow> recursionIsNoop ms"
    using ok0 by (auto intro!: recursion_noop_on)
  have b: "permutes sort_e \<longrightarrow>
              recursionIsNoop (modules t)
            \<and> (\<forall>i. expectedSideEffects t i =
                  map_option snd
                    (analyzeImportsOnly (Suc (length (modules t))) (modules t) i ([], {})))"
  proof
    assume "permutes sort_e"
    then have "mset ms = mset (modules t0)" using p(4) by blast
    then have "set ms = set (modules t0)" by (rule mset_eq_setD)
    then have "set (modules t) = set (modules t0)" by (simp add: t_def)
    then have "recursionIsNoop (modules t)" using a by simp
    then show "recursionIsNoop (modules t)
            \<and> (\<forall>i. expectedSideEffects t i =
                  map_option snd
                    (analyzeImportsOnly (Suc (length (modules t))) (modules t) i ([], {})))"
      using recursionIsNoop_expected by blast
  qed
  have pl: "plan sort_e r = Inr (t, r')" using p(3) by (simp only: t_def)
  show "\<exists>t0 r0 t r'. generate r = Inr (t0, r0) \<and> plan sort_e r = Inr (t, r')
        \<and> (\<forall>ms. set ms \<subseteq> set (modules t0) \<longrightarrow> recursionIsNoop ms)
        \<and> (permutes sort_e \<longrightarrow>
              recursionIsNoop (modules t)
            \<and> (\<forall>i. expectedSideEffects t i =
                  map_option snd
                    (analyzeImportsOnly (Suc (length (modules t))) (modules t) i ([], {}))))"
    using p(1) pl a b by (intro exI[of _ t0] exI[of _ r0] exI[of _ t] exI[of _ r'] conjI)
qed

theorem side_effect_recursion_is_noop_witness:
  "isExportName ''export_e2'' \<and> isModuleId ''e1''
   \<and> find (\<lambda>m'. id_m m' = ''export_e2'') (modules sampleTrial) = None
   \<and> analyzeSideEffects 1 (modules sampleTrial) ''export_e2'' ([''e1''], {''export_e2''})
        = Some ([''e1''], {''export_e2''})
   \<and> analyzeImportsOnly 3 (modules sampleTrial) ''e1'' ([], {})
        = Some ([''e1'', ''e0''], {''export_e2'', ''export_e3''})
   \<and> expectedSideEffects sampleTrial ''e1'' = Some {''export_e2'', ''export_e3''}
   \<and> analyzeSideEffects 1 [sampleModule0] ''export_e3'' ([''e0''], {''export_e3''})
        = Some ([''e0''], {''export_e3''})"
proof -
  note inst = side_effect_recursion_is_noop[of "''e1''" sampleDraws sampleSort]
  from inst[THEN conjunct2] obtain t0 :: Trial and r0 t r'
    where g: "generate sampleDraws = Inr (t0, r0)"
    and pl: "plan sampleSort sampleDraws = Inr (t, r')"
    and sub: "\<forall>ms. set ms \<subseteq> set (modules t0) \<longrightarrow> recursionIsNoop ms"
    and imp: "permutes (sampleSort :: TrialModule engine_sort) \<longrightarrow>
              recursionIsNoop (modules t)
            \<and> (\<forall>i. expectedSideEffects t i =
                  map_option snd
                    (analyzeImportsOnly (Suc (length (modules t))) (modules t) i ([], {})))"
    by blast
  have t: "t = sampleTrial" using pl by (rule plan_sample_trial)
  have noop: "recursionIsNoop (modules sampleTrial)"
    and ex: "expectedSideEffects sampleTrial ''e1'' =
        map_option snd (analyzeImportsOnly (Suc (length (modules sampleTrial)))
          (modules sampleTrial) ''e1'' ([], {}))"
    using imp permutes_sampleSort_modules unfolding t by blast+
  have m: "sampleModule1 \<in> set (modules sampleTrial)" by (simp add: sampleTrial_def)
  have n: "''export_e2'' \<in> set (sideEffects sampleModule1)" by (simp add: sampleModule1_def)
  have i: "id_m sampleModule1 = ''e1''" by (simp add: sampleModule1_def)
  have len: "Suc (length (modules sampleTrial)) = 3" by (simp add: sampleTrial_def)
  from noop m have "isModuleId (id_m sampleModule1)"
    unfolding recursionIsNoop_def by blast
  then have c1: "isModuleId ''e1''" by (simp only: i)
  from noop m n have c2: "isExportName ''export_e2''"
    and c3: "find (\<lambda>m'. id_m m' = ''export_e2'') (modules sampleTrial) = None"
    and c4: "analyzeSideEffects (Suc 0) (modules sampleTrial) ''export_e2'' ([''e1''], {''export_e2''})
       = Some ([''e1''], {''export_e2''})"
    unfolding recursionIsNoop_def by blast+
  from noop obtain res where
    "analyzeSideEffects (Suc (length (modules sampleTrial))) (modules sampleTrial) ''e1'' ([], {}) = Some res"
    "analyzeImportsOnly (Suc (length (modules sampleTrial))) (modules sampleTrial) ''e1'' ([], {}) = Some res"
    unfolding recursionIsNoop_def by blast
  then have c5: "analyzeImportsOnly 3 (modules sampleTrial) ''e1'' ([], {})
        = Some ([''e1'', ''e0''], {''export_e2'', ''export_e3''})"
    using analyze_sample unfolding len by simp
  then have c6: "expectedSideEffects sampleTrial ''e1'' = Some {''export_e2'', ''export_e3''}"
    using ex unfolding len by simp
  have t0: "t0 = sampleTrial\<lparr>entrypoints := [], modules := [sampleModule0, sampleModule1]\<rparr>"
    using g by (rule generate_sample_trial)
  have "set [sampleModule0] \<subseteq> set (modules t0)" by (simp add: t0)
  then have "recursionIsNoop [sampleModule0]" using sub by blast
  moreover have "''export_e3'' \<in> set (sideEffects sampleModule0)" by (simp add: sampleModule0_def)
  ultimately have c7: "analyzeSideEffects (Suc 0) [sampleModule0] ''export_e3'' ([''e0''], {''export_e3''})
        = Some ([''e0''], {''export_e3''})"
    unfolding recursionIsNoop_def by simp
  from c1 c2 c3 c4 c5 c6 c7 show ?thesis by simp
qed

lemma pick_empty: "pick [] r = Inl UnwrapError"
  by (simp add: pick_def random_def at_index_def unwrap_def split: prod.splits)

text \<open>
  Claim C10. \<open>pick\<close> throws on an empty list of candidates. A trial with a module in which
  every module has an export gives \<open>pickRandomExport\<close> a candidate. The original-exports
  pass leaves such a trial, and the re-export pass and the side-effect pass after it run
  to their end without an error.
\<close>

theorem pickRandomExport_never_fails:
  "pick ([] :: TrialExport list) r0 = Inl UnwrapError
   \<and> (modules t \<noteq> [] \<and> (\<forall>m \<in> set (modules t). exports_m m \<noteq> []) \<longrightarrow>
        (\<exists>imp r'. pickRandomExport t r0 = Inr (imp, r')))
   \<and> (\<exists>t1 r1 t2 r2 t3 r3.
         addOriginalExports (seedInitialModules (newTrial, r)) = (t1, r1)
       \<and> modules t1 \<noteq> [] \<and> (\<forall>m \<in> set (modules t1). exports_m m \<noteq> [])
       \<and> concat (map exports_m (modules t1)) \<noteq> []
       \<and> addReExports (t1, r1) = Inr (t2, r2) \<and> addSideEffects (t2, r2) = Inr (t3, r3))"
proof (intro conjI)
  show "pick ([] :: TrialExport list) r0 = Inl UnwrapError" by (rule pick_empty)
next
  show "modules t \<noteq> [] \<and> (\<forall>m \<in> set (modules t). exports_m m \<noteq> []) \<longrightarrow>
        (\<exists>imp r'. pickRandomExport t r0 = Inr (imp, r'))"
  proof
    assume a: "modules t \<noteq> [] \<and> (\<forall>m \<in> set (modules t). exports_m m \<noteq> [])"
    then obtain m where "m \<in> set (modules t)" "exports_m m \<noteq> []"
      by (cases "modules t") auto
    then have "concat (map exports_m (modules t)) \<noteq> []" by auto
    from pick_nonempty[OF this, of r0] show "\<exists>imp r'. pickRandomExport t r0 = Inr (imp, r')"
      by (auto simp: pickRandomExport_def)
  qed
next
  obtain t1 r1 t2 r2 t3 r3 where s:
    "addOriginalExports (seedInitialModules (newTrial, r)) = (t1, r1)" "wellFormed t1"
    "addReExports (t1, r1) = Inr (t2, r2)"
    "addSideEffects (t2, r2) = Inr (t3, r3)" "2 \<le> length (modules t1)"
    using generate_stages[of r] by metis
  have ne: "modules t1 \<noteq> []" using s(5) by auto
  have all: "\<forall>m \<in> set (modules t1). exports_m m \<noteq> []"
    using s(2) by (simp add: wellFormed_def moduleOK_def)
  from ne all obtain m where "m \<in> set (modules t1)" "exports_m m \<noteq> []"
    by (cases "modules t1") auto
  then have "concat (map exports_m (modules t1)) \<noteq> []" by auto
  with s(1,3,4) ne all show "\<exists>t1 r1 t2 r2 t3 r3.
         addOriginalExports (seedInitialModules (newTrial, r)) = (t1, r1)
       \<and> modules t1 \<noteq> [] \<and> (\<forall>m \<in> set (modules t1). exports_m m \<noteq> [])
       \<and> concat (map exports_m (modules t1)) \<noteq> []
       \<and> addReExports (t1, r1) = Inr (t2, r2) \<and> addSideEffects (t2, r2) = Inr (t3, r3)" by blast
qed

theorem pickRandomExport_never_fails_witness:
  "pick ([] :: TrialExport list) [] = Inl UnwrapError
   \<and> pickRandomExport sampleTrial [] = Inr (\<lparr>importedFrom = ''e1'', name = ''export_e3''\<rparr>, [])
   \<and> map_sum id fst (generate sampleDraws)
        = Inr (sampleTrial\<lparr>entrypoints := [], modules := [sampleModule0, sampleModule1]\<rparr>)"
proof -
  note inst = pickRandomExport_never_fails[of "[]" sampleTrial sampleDraws]
  have h: "modules sampleTrial \<noteq> [] \<and> (\<forall>m \<in> set (modules sampleTrial). exports_m m \<noteq> [])"
    by (simp add: sampleTrial_def sampleModule0_def sampleModule1_def)
  have e: "pickRandomExport sampleTrial [] = Inr (\<lparr>importedFrom = ''e1'', name = ''export_e3''\<rparr>, [])"
    by (simp add: pickRandomExport_def sampleTrial_def sampleModule0_def sampleModule1_def
        pick_def random_def Math_random_def float_of.rep_eq at_index_def unwrap_def)
  have "\<exists>imp r'. pickRandomExport sampleTrial [] = Inr (imp, r')" using inst h by blast
  moreover have "pick ([] :: TrialExport list) [] = Inl UnwrapError" using inst by blast
  ultimately show ?thesis using e generate_sample by simp
qed

end
